theory Spec2Isabelle
  imports Main "HOL-Library.Sublist"
begin

section \<open>Python string operations used by the scrapers\<close>

text \<open>
  A Python \<open>str\<close> is modelled as a \<open>string\<close>, one \<open>char\<close> per code point (texts in
  the 8-bit range). The functions below follow the built-in methods the three scrapers
  call: \<open>str.strip\<close>, \<open>str.replace\<close>, \<open>str.split\<close>, \<open>str.lower\<close>, \<open>str.join\<close>,
  the operator \<open>in\<close> on strings, and slicing \<open>s[:n]\<close> (which is \<open>take n s\<close>).
\<close>

definition is_space :: "char \<Rightarrow> bool" where
  "is_space c =
     (let n = (of_char c :: nat)
      in (9 \<le> n \<and> n \<le> 13) \<or> (28 \<le> n \<and> n \<le> 32) \<or> n = 133 \<or> n = 160)"

text \<open>\<open>s.strip()\<close> removes leading and trailing whitespace.\<close>

definition str_strip :: "string \<Rightarrow> string" where
  "str_strip s = rev (dropWhile is_space (rev (dropWhile is_space s)))"

text \<open>\<open>s.strip(chars)\<close> removes leading and trailing characters of \<open>chars\<close>.\<close>

definition str_strip_chars :: "string \<Rightarrow> string \<Rightarrow> string" where
  "str_strip_chars chars s =
     rev (dropWhile (\<lambda>c. c \<in> set chars) (rev (dropWhile (\<lambda>c. c \<in> set chars) s)))"

text \<open>
  \<open>s.replace(old, new)\<close>: the occurrences of \<open>old\<close> are found from the left and do not
  overlap. With an empty \<open>old\<close>, Python puts \<open>new\<close> before every character and at the end.
\<close>

fun replace_ne :: "string \<Rightarrow> string \<Rightarrow> string \<Rightarrow> string" where
  "replace_ne old new [] = []"
| "replace_ne old new (c # cs) =
     (if prefix old (c # cs) then new @ replace_ne old new (drop (length old - 1) cs)
      else c # replace_ne old new cs)"

definition str_replace :: "string \<Rightarrow> string \<Rightarrow> string \<Rightarrow> string" where
  "str_replace old new s =
     (if old = [] then new @ concat (map (\<lambda>c. c # new) s) else replace_ne old new s)"

text \<open>
  \<open>s.split(sep)\<close> for a non-empty separator (the scrapers only split on the literal
  \<open>'/abs/'\<close>; Python raises \<open>ValueError\<close> on an empty one). \<open>cur\<close> is the piece being read.
\<close>

fun split_from :: "string \<Rightarrow> string \<Rightarrow> string \<Rightarrow> string list" where
  "split_from sep cur [] = [cur]"
| "split_from sep cur (c # cs) =
     (if prefix sep (c # cs) then cur # split_from sep [] (drop (length sep - 1) cs)
      else split_from sep (cur @ [c]) cs)"

definition str_split :: "string \<Rightarrow> string \<Rightarrow> string list" where
  "str_split sep s = split_from sep [] s"

text \<open>
  \<open>s.lower()\<close>: every capital letter of ASCII and of the Latin-1 block is replaced
  by its small letter, 32 code points above it.
\<close>

definition capital_letters :: string where
  "capital_letters = ''ABCDEFGHIJKLMNOPQRSTUVWXYZ'' @
     [CHR 0xC0, CHR 0xC1, CHR 0xC2, CHR 0xC3, CHR 0xC4, CHR 0xC5, CHR 0xC6, CHR 0xC7,
      CHR 0xC8, CHR 0xC9, CHR 0xCA, CHR 0xCB, CHR 0xCC, CHR 0xCD, CHR 0xCE, CHR 0xCF,
      CHR 0xD0, CHR 0xD1, CHR 0xD2, CHR 0xD3, CHR 0xD4, CHR 0xD5, CHR 0xD6, CHR 0xD8,
      CHR 0xD9, CHR 0xDA, CHR 0xDB, CHR 0xDC, CHR 0xDD, CHR 0xDE]"

definition small_letters :: string where
  "small_letters = ''abcdefghijklmnopqrstuvwxyz'' @
     [CHR 0xE0, CHR 0xE1, CHR 0xE2, CHR 0xE3, CHR 0xE4, CHR 0xE5, CHR 0xE6, CHR 0xE7,
      CHR 0xE8, CHR 0xE9, CHR 0xEA, CHR 0xEB, CHR 0xEC, CHR 0xED, CHR 0xEE, CHR 0xEF,
      CHR 0xF0, CHR 0xF1, CHR 0xF2, CHR 0xF3, CHR 0xF4, CHR 0xF5, CHR 0xF6, CHR 0xF8,
      CHR 0xF9, CHR 0xFA, CHR 0xFB, CHR 0xFC, CHR 0xFD, CHR 0xFE]"

definition lower_char :: "char \<Rightarrow> char" where
  "lower_char c =
     (case map_of (zip capital_letters small_letters) c of Some l \<Rightarrow> l | None \<Rightarrow> c)"

definition str_lower :: "string \<Rightarrow> string" where
  "str_lower s = map lower_char s"

text \<open>\<open>sep.join(xs)\<close>.\<close>

fun str_join :: "string \<Rightarrow> string list \<Rightarrow> string" where
  "str_join sep [] = []"
| "str_join sep [x] = x"
| "str_join sep (x # y # ys) = x @ sep @ str_join sep (y # ys)"

text \<open>\<open>sub in s\<close>: \<open>sub\<close> occurs in \<open>s\<close> as a contiguous piece.\<close>

fun str_contains :: "string \<Rightarrow> string \<Rightarrow> bool" where
  "str_contains sub [] = (sub = [])"
| "str_contains sub (c # cs) = (prefix sub (c # cs) \<or> str_contains sub cs)"


section \<open>The arXiv scraper (\<open>arxiv_scraper.py\<close>)\<close>

subsection \<open>The XML tree of \<open>xml.etree.ElementTree\<close>\<close>

text \<open>
  An \<open>Element\<close> has a tag (a qualified name \<open>{uri}local\<close>), attributes, the text before
  its first child (\<open>None\<close> when there is none) and its children.
\<close>

datatype element =
  Element (tag: string) (attrib: "(string \<times> string) list") (etext: "string option")
    (children: "element list")

text \<open>The namespace dictionary \<open>ns\<close> that both parsing functions define.\<close>

definition ns :: "(string \<times> string) list" where
  "ns = [(''atom'', ''http://www.w3.org/2005/Atom''),
         (''arxiv'', ''http://arxiv.org/schemas/atom'')]"

definition qname :: "string \<Rightarrow> string \<Rightarrow> string" where
  "qname pfx local =
     (case map_of ns pfx of Some uri \<Rightarrow> ''{'' @ uri @ ''}'' @ local | None \<Rightarrow> local)"

text \<open>
  \<open>e.find('pfx:local', ns)\<close> is the first child of \<open>e\<close> with that qualified tag, or
  \<open>None\<close>; \<open>e.findall\<close> is the list of all such children; \<open>e.get(key)\<close> reads an
  attribute, \<open>None\<close> when it is absent.
\<close>

definition et_find :: "element \<Rightarrow> string \<Rightarrow> string \<Rightarrow> element option" where
  "et_find e pfx local = List.find (\<lambda>c. tag c = qname pfx local) (children e)"

definition et_findall :: "element \<Rightarrow> string \<Rightarrow> string \<Rightarrow> element list" where
  "et_findall e pfx local = filter (\<lambda>c. tag c = qname pfx local) (children e)"

definition et_get :: "element \<Rightarrow> string \<Rightarrow> string option" where
  "et_get e key = map_of (attrib e) key"

subsection \<open>Records and exceptions\<close>

text \<open>
  The dataclass \<open>ArxivPaper\<close>. Python does not check the annotations: \<open>published\<close>,
  \<open>updated\<close>, an author name and a category term are whatever \<open>.text\<close> or \<open>.get\<close>
  returned, which is \<open>None\<close> for an empty element or a missing attribute.
\<close>

record ArxivPaper =
  paper_id :: string
  title :: string
  authors :: "string option list"
  abstract :: string
  published :: "string option"
  updated :: "string option"
  pdf_url :: string
  arxiv_url :: string
  categories :: "string option list"
  doi :: "string option"
  journal_ref :: "string option"

text \<open>
  The exceptions that can leave the modelled functions: \<open>AttributeError\<close> is what
  Python raises for \<open>None.text\<close>, \<open>None.strip()\<close> and \<open>None.split(...)\<close>;
  \<open>ValueError\<close> is what \<open>urllib.parse\<close> raises on a URL it rejects;
  \<open>FileNotFoundError\<close> and the other subclasses of \<open>OSError\<close> are what \<open>open\<close>
  raises on a path it cannot create.
\<close>

datatype exn = AttributeError | ValueError | FileNotFoundError | OSError

text \<open>\<open>x.find(...).text\<close>: raises when \<open>find\<close> returned \<open>None\<close>.\<close>

definition text_of :: "element option \<Rightarrow> exn + string option" where
  "text_of r = (case r of None \<Rightarrow> Inl AttributeError | Some e \<Rightarrow> Inr (etext e))"

text \<open>A string method called on a value that may be \<open>None\<close>.\<close>

definition as_str :: "string option \<Rightarrow> exn + string" where
  "as_str v = (case v of None \<Rightarrow> Inl AttributeError | Some s \<Rightarrow> Inr s)"

text \<open>\<open>x.find(...).text.m()\<close> for a string method \<open>m\<close>.\<close>

definition str_text_of :: "element option \<Rightarrow> exn + string" where
  "str_text_of r = (case text_of r of Inl e \<Rightarrow> Inl e | Inr v \<Rightarrow> as_str v)"

text \<open>The loop \<open>for author in entry.findall('atom:author', ns)\<close>.\<close>

fun author_names :: "element list \<Rightarrow> exn + string option list" where
  "author_names [] = Inr []"
| "author_names (a # as) =
     (case text_of (et_find a ''atom'' ''name'') of
        Inl e \<Rightarrow> Inl e
      | Inr name \<Rightarrow>
          (case author_names as of Inl e \<Rightarrow> Inl e | Inr names \<Rightarrow> Inr (name # names)))"

subsection \<open>Parsing one entry\<close>

text \<open>
  The statements that \<open>_parse_response\<close> and the loop body of \<open>search_papers\<close> share,
  in the order of the source: id, title, summary, published, updated, authors,
  categories and the two URLs built from the id. The optional fields are filled in by
  \<open>_parse_response\<close> only.
\<close>

definition entry_fields :: "element \<Rightarrow> exn + ArxivPaper" where
  "entry_fields entry =
     (case str_text_of (et_find entry ''atom'' ''id'') of
        Inl e \<Rightarrow> Inl e
      | Inr paper_url \<Rightarrow>
     (case str_text_of (et_find entry ''atom'' ''title'') of
        Inl e \<Rightarrow> Inl e
      | Inr t \<Rightarrow>
     (case str_text_of (et_find entry ''atom'' ''summary'') of
        Inl e \<Rightarrow> Inl e
      | Inr s \<Rightarrow>
     (case text_of (et_find entry ''atom'' ''published'') of
        Inl e \<Rightarrow> Inl e
      | Inr pub \<Rightarrow>
     (case text_of (et_find entry ''atom'' ''updated'') of
        Inl e \<Rightarrow> Inl e
      | Inr upd \<Rightarrow>
     (case author_names (et_findall entry ''atom'' ''author'') of
        Inl e \<Rightarrow> Inl e
      | Inr names \<Rightarrow>
          (let pid = last (str_split ''/abs/'' paper_url)
           in Inr \<lparr> paper_id = pid,
                    title = str_replace [CHR 0x0A] '' '' (str_strip t),
                    authors = names,
                    abstract = str_strip s,
                    published = pub,
                    updated = upd,
                    pdf_url = ''https://arxiv.org/pdf/'' @ pid @ ''.pdf'',
                    arxiv_url = ''https://arxiv.org/abs/'' @ pid,
                    categories =
                      map (\<lambda>c. et_get c ''term'') (et_findall entry ''atom'' ''category''),
                    doi = None,
                    journal_ref = None \<rparr>)))))))"

subsection \<open>\<open>_parse_response\<close>\<close>

text \<open>
  \<open>fromstring\<close> stands for \<open>ET.fromstring\<close>: \<open>None\<close> when it raises \<open>ET.ParseError\<close>,
  which is the one exception \<open>_parse_response\<close> catches (it then returns \<open>None\<close>).
  \<open>Inl\<close> is an exception that leaves the function.
\<close>

definition parse_response ::
  "(string \<Rightarrow> element option) \<Rightarrow> string \<Rightarrow> exn + ArxivPaper option" where
  "parse_response fromstring xml_response =
     (case fromstring xml_response of
        None \<Rightarrow> Inr None
      | Some root \<Rightarrow>
          (case et_find root ''atom'' ''entry'' of
             None \<Rightarrow> Inr None
           | Some entry \<Rightarrow>
               (case entry_fields entry of
                  Inl e \<Rightarrow> Inl e
                | Inr p \<Rightarrow>
                    let doi_elem = et_find entry ''arxiv'' ''doi'';
                        journal_elem = et_find entry ''arxiv'' ''journal_ref''
                    in Inr (Some (p\<lparr> doi := (case doi_elem of None \<Rightarrow> None | Some d \<Rightarrow> etext d),
                                     journal_ref :=
                                       (case journal_elem of None \<Rightarrow> None | Some j \<Rightarrow> etext j) \<rparr>)))))"

subsection \<open>\<open>fetch_paper\<close> and \<open>search_papers\<close>\<close>

text \<open>
  The HTTP session of the arXiv scraper: \<open>api_get params\<close> is the text of the response
  to \<open>session.get(BASE_URL, params=params)\<close>, or \<open>None\<close> when \<open>get\<close> or
  \<open>raise_for_status\<close> raises a \<open>requests.RequestException\<close>.
\<close>

datatype pval = Str string | Num int

record arxiv_env =
  api_get :: "(string \<times> pval) list \<Rightarrow> string option"
  fromstring :: "string \<Rightarrow> element option"
  open_w :: "string \<Rightarrow> exn option"

text \<open>
  \<open>fetch_paper\<close> catches \<open>requests.RequestException\<close> only: an exception of
  \<open>_parse_response\<close> leaves \<open>fetch_paper\<close> too.
\<close>

definition id_params :: "string \<Rightarrow> (string \<times> pval) list" where
  "id_params pid0 =
     (let pid = str_replace ''arXiv:'' [] (str_replace ''arxiv:'' [] pid0)
      in [(''id_list'', Str pid), (''max_results'', Num 1)])"

definition fetch_paper :: "arxiv_env \<Rightarrow> string \<Rightarrow> exn + ArxivPaper option" where
  "fetch_paper env pid0 =
     (case api_get env (id_params pid0) of
        None \<Rightarrow> Inr None
      | Some txt \<Rightarrow> parse_response (fromstring env) txt)"

text \<open>The loop \<open>for entry in root.findall('atom:entry', ns)\<close> of \<open>search_papers\<close>.\<close>

fun search_entries :: "element list \<Rightarrow> exn + ArxivPaper list" where
  "search_entries [] = Inr []"
| "search_entries (entry # rest) =
     (case entry_fields entry of
        Inl e \<Rightarrow> Inl e
      | Inr p \<Rightarrow> (case search_entries rest of Inl e \<Rightarrow> Inl e | Inr ps \<Rightarrow> Inr (p # ps)))"

text \<open>
  The whole body of \<open>search_papers\<close> is inside \<open>try ... except Exception: return []\<close>:
  a failed request, a malformed document and an exception raised while reading any
  entry all give the empty list.
\<close>

definition search_params :: "string \<Rightarrow> int \<Rightarrow> (string \<times> pval) list" where
  "search_params query max_results =
     [(''search_query'', Str query), (''max_results'', Num max_results),
      (''sortBy'', Str ''relevance''), (''sortOrder'', Str ''descending'')]"

definition search_papers :: "arxiv_env \<Rightarrow> string \<Rightarrow> int \<Rightarrow> ArxivPaper list" where
  "search_papers env query max_results =
     (case api_get env (search_params query max_results) of
        None \<Rightarrow> []
      | Some txt \<Rightarrow>
          (case fromstring env txt of
             None \<Rightarrow> []
           | Some root \<Rightarrow>
               (case search_entries (et_findall root ''atom'' ''entry'') of
                  Inl e \<Rightarrow> []
                | Inr papers \<Rightarrow> papers)))"

text \<open>
  An entry lacks a required field when it has no \<open>id\<close>, \<open>title\<close>, \<open>summary\<close>,
  \<open>published\<close> or \<open>updated\<close> child.
\<close>

definition missing_required :: "element \<Rightarrow> bool" where
  "missing_required entry =
     (et_find entry ''atom'' ''id'' = None \<or> et_find entry ''atom'' ''title'' = None
      \<or> et_find entry ''atom'' ''summary'' = None \<or> et_find entry ''atom'' ''published'' = None
      \<or> et_find entry ''atom'' ''updated'' = None)"

subsection \<open>\<open>fetch_related_papers\<close>: removing duplicates\<close>

text \<open>
  The loop under the comment \<open># Remove duplicates\<close>: \<open>seen\<close> is the set of paper ids met
  so far, \<open>unique_papers\<close> the list built so far.
\<close>

fun remove_duplicates ::
  "string set \<Rightarrow> ArxivPaper list \<Rightarrow> ArxivPaper list \<Rightarrow> ArxivPaper list" where
  "remove_duplicates seen unique_papers [] = unique_papers"
| "remove_duplicates seen unique_papers (paper # rest) =
     (if paper_id paper \<notin> seen
      then remove_duplicates (insert (paper_id paper) seen) (unique_papers @ [paper]) rest
      else remove_duplicates seen unique_papers rest)"

definition queries :: "string list" where
  "queries = [''HotStuff BFT consensus'', ''Fast-HotStuff'',
              ''Byzantine fault tolerance blockchain'', ''streamlined consensus'']"

definition fetch_related_papers :: "arxiv_env \<Rightarrow> ArxivPaper list" where
  "fetch_related_papers env =
     (let all_papers = concat (map (\<lambda>query. search_papers env query 5) queries)
      in remove_duplicates {} [] all_papers)"

text \<open>
  Writing a file. The output directory is modelled as a map from file names to the
  record whose JSON the file holds. \<open>opn filename\<close> stands for
  \<open>open(self.output_dir / filename, 'w')\<close>: it is \<open>None\<close> when the file is created
  or truncated, and the exception when \<open>open\<close> raises, as it does for a name with a
  \<open>/\<close>, which leads into a subdirectory that nothing creates. When \<open>open\<close> raises,
  nothing is written and the exception leaves the saving function. Nothing but the
  scraper touches the output directory during a run, so \<open>open\<close> answers a name the
  same way each time.
\<close>

definition write_file ::
  "(string \<Rightarrow> exn option) \<Rightarrow> (string \<rightharpoonup> 'a) \<Rightarrow> string \<Rightarrow> 'a
     \<Rightarrow> exn + (string \<rightharpoonup> 'a) \<times> string" where
  "write_file opn dir filename r =
     (case opn filename of
        Some e \<Rightarrow> Inl e
      | None \<Rightarrow> Inr (dir(filename \<mapsto> r), filename))"

text \<open>
  \<open>save_metadata\<close> returns the new directory and the name of the file. \<open>open_w\<close> of
  the environment is \<open>open\<close> in the output directory of the arXiv scraper.
\<close>

definition save_metadata ::
  "arxiv_env \<Rightarrow> (string \<rightharpoonup> ArxivPaper) \<Rightarrow> ArxivPaper
     \<Rightarrow> exn + (string \<rightharpoonup> ArxivPaper) \<times> string" where
  "save_metadata env dir paper = write_file (open_w env) dir (paper_id paper @ ''.json'') paper"

text \<open>The first paper of a list with a given id, as a specification of "first occurrence".\<close>

definition first_with_id :: "string \<Rightarrow> ArxivPaper list \<Rightarrow> ArxivPaper option" where
  "first_with_id k ps = List.find (\<lambda>p. paper_id p = k) ps"



section \<open>The HTML tree of BeautifulSoup\<close>

text \<open>
  \<open>BeautifulSoup(response.content, 'html.parser')\<close> is a tree of tags and text nodes;
  the soup itself is the root tag. Comments and the text of \<open>script\<close> and \<open>style\<close>
  elements, which \<open>get_text\<close> leaves out, are not part of the tree.
\<close>

datatype node =
  Tag (tag_name: string) (attrs: "(string \<times> string) list") (contents: "node list")
| NavigableString string

text \<open>The descendants of a node, in document order.\<close>

fun descendants :: "node \<Rightarrow> node list" where
  "descendants (Tag n a cs) = concat (map (\<lambda>c. c # descendants c) cs)"
| "descendants (NavigableString s) = []"

fun named :: "string \<Rightarrow> node \<Rightarrow> bool" where
  "named t (Tag n a cs) = (n = t)"
| "named t (NavigableString s) = False"

fun attr :: "node \<Rightarrow> string \<Rightarrow> string option" where
  "attr (Tag n a cs) key = map_of a key"
| "attr (NavigableString s) key = None"

text \<open>The whitespace-separated words of an attribute value.\<close>

fun words_from :: "string \<Rightarrow> string \<Rightarrow> string list" where
  "words_from cur [] = (if cur = [] then [] else [cur])"
| "words_from cur (c # cs) =
     (if is_space c then (if cur = [] then words_from [] cs else cur # words_from [] cs)
      else words_from (cur @ [c]) cs)"

definition str_words :: "string \<Rightarrow> string list" where
  "str_words s = words_from [] s"

text \<open>
  \<open>class\<close> and \<open>rel\<close> are multi-valued attributes: \<open>class_='post'\<close> and
  \<open>rel='author'\<close> match a tag one of whose values is the given word.
\<close>

definition has_word :: "string \<Rightarrow> string \<Rightarrow> node \<Rightarrow> bool" where
  "has_word key w n = (case attr n key of None \<Rightarrow> False | Some v \<Rightarrow> w \<in> set (str_words v))"

definition classed :: "string \<Rightarrow> node \<Rightarrow> bool" where
  "classed c n = has_word ''class'' c n"

text \<open>
  \<open>x.find_all(...)\<close> lists the descendants of \<open>x\<close> that match, in document order;
  \<open>x.find(...)\<close> is the first of them, or \<open>None\<close>.
\<close>

definition bs_find_all :: "(node \<Rightarrow> bool) \<Rightarrow> node \<Rightarrow> node list" where
  "bs_find_all P x = filter P (descendants x)"

definition bs_find :: "(node \<Rightarrow> bool) \<Rightarrow> node \<Rightarrow> node option" where
  "bs_find P x = List.find P (descendants x)"

text \<open>Python's \<open>a or b\<close> on results of \<open>find\<close> (a tag is always true).\<close>

definition or_else :: "'a option \<Rightarrow> 'a option \<Rightarrow> 'a option" where
  "or_else a b = (case a of None \<Rightarrow> b | Some x \<Rightarrow> Some x)"

text \<open>
  \<open>x.get_text(separator=sep, strip=True)\<close>: the text nodes below \<open>x\<close>, each stripped,
  the empty ones dropped, joined with \<open>sep\<close>.
\<close>

fun string_of :: "node \<Rightarrow> string option" where
  "string_of (NavigableString s) = Some s"
| "string_of (Tag n a cs) = None"

definition get_text :: "string \<Rightarrow> node \<Rightarrow> string" where
  "get_text sep x =
     str_join sep (filter (\<lambda>s. s \<noteq> []) (map str_strip (List.map_filter string_of (descendants x))))"

text \<open>
  \<open>for elem in x(names): elem.decompose()\<close> removes from the tree every descendant of
  \<open>x\<close> whose name is in \<open>names\<close>.
\<close>

fun decompose_all :: "string list \<Rightarrow> node \<Rightarrow> node" where
  "decompose_all names (Tag n a cs) =
     Tag n a (map (decompose_all names) (filter (\<lambda>c. \<not> (\<exists>t \<in> set names. named t c)) cs))"
| "decompose_all names (NavigableString s) = NavigableString s"

text \<open>
  The element that \<open>find\<close> returns is a node of the soup, and \<open>decompose\<close> changes the
  soup. \<open>update_first P f x\<close> is \<open>x\<close> with its first descendant that satisfies \<open>P\<close>
  (the one \<open>find\<close> returns) replaced by its image under \<open>f\<close>; \<open>None\<close> when no
  descendant satisfies \<open>P\<close>.
\<close>

fun update_first :: "(node \<Rightarrow> bool) \<Rightarrow> (node \<Rightarrow> node) \<Rightarrow> node \<Rightarrow> node option"
  and update_first_list ::
    "(node \<Rightarrow> bool) \<Rightarrow> (node \<Rightarrow> node) \<Rightarrow> node list \<Rightarrow> node list option" where
  "update_first P f (Tag n a cs) = map_option (Tag n a) (update_first_list P f cs)"
| "update_first P f (NavigableString s) = None"
| "update_first_list P f [] = None"
| "update_first_list P f (c # cs) =
     (if P c then Some (f c # cs)
      else (case update_first P f c of
              Some c' \<Rightarrow> Some (c' # cs)
            | None \<Rightarrow> map_option ((#) c) (update_first_list P f cs)))"


section \<open>The environment of the HTML scrapers\<close>

text \<open>
  What the documentation and blog scrapers call outside the repository:
  \<^item> \<open>http_get url\<close> is the soup of the response to \<open>session.get(url, timeout=30)\<close>, or
    \<open>None\<close> when the request or \<open>raise_for_status\<close> raises. The site is static: the
    same URL gives the same answer during a run.
  \<^item> \<open>urljoin base href\<close> and \<open>urlparse url\<close> are the functions of \<open>urllib.parse\<close>;
    \<open>None\<close> when they raise \<open>ValueError\<close>.
  \<^item> \<open>file_open filename\<close> is \<open>open(self.output_dir / filename, 'w')\<close> in the output
    directory of the scraper: \<open>None\<close> when it succeeds, the exception when it raises.
\<close>

record url_parts =
  scheme :: string
  netloc :: string
  path :: string
  params :: string
  query :: string
  fragment :: string

record web_env =
  http_get :: "string \<Rightarrow> node option"
  urljoin :: "string \<Rightarrow> string \<Rightarrow> string option"
  urlparse :: "string \<Rightarrow> url_parts option"
  file_open :: "string \<Rightarrow> exn option"


section \<open>The documentation scraper (\<open>docs_scraper.py\<close>)\<close>

text \<open>
  The dataclass \<open>DocPage\<close>; its fields \<open>section\<close> and \<open>subsection\<close> are
  \<open>page_section\<close> and \<open>page_subsection\<close> here.
\<close>

record DocPage =
  url :: string
  title :: string
  content :: string
  page_section :: string
  page_subsection :: "string option"
  breadcrumbs :: "string list"

definition BASE_URL :: string where
  "BASE_URL = ''https://docs.monad.xyz''"

subsection \<open>\<open>_extract_breadcrumbs\<close>\<close>

definition extract_breadcrumbs :: "node \<Rightarrow> string list" where
  "extract_breadcrumbs soup =
     (let breadcrumb_elem =
            or_else (bs_find (\<lambda>n. named ''nav'' n \<and> classed ''breadcrumbs'' n) soup)
           (or_else (bs_find (\<lambda>n. named ''ol'' n \<and> classed ''breadcrumb'' n) soup)
                    (bs_find (classed ''breadcrumb'') soup))
      in case breadcrumb_elem of
           None \<Rightarrow> []
         | Some b \<Rightarrow> map (get_text []) (bs_find_all (named ''a'') b))"

subsection \<open>\<open>_scrape_page\<close>\<close>

text \<open>
  The selectors of the main content, in the order of the \<open>or\<close> chain; the content
  element is the first match of the first selector that matches anything.
\<close>

definition content_selectors :: "(node \<Rightarrow> bool) list" where
  "content_selectors =
     [named ''main'', named ''article'', classed ''documentation-content'', classed ''doc-content'']"

definition first_selector :: "(node \<Rightarrow> bool) list \<Rightarrow> node \<Rightarrow> (node \<Rightarrow> bool) option" where
  "first_selector sels soup = List.find (\<lambda>P. bs_find P soup \<noteq> None) sels"

text \<open>
  The body of \<open>_scrape_page\<close> after the response has been parsed. The title is read
  first. Then \<open>script\<close>, \<open>style\<close> and \<open>nav\<close> elements are removed from the content
  element, which changes the soup; the breadcrumbs are read from the soup after that.
\<close>

definition page_of_soup :: "string \<Rightarrow> node \<Rightarrow> DocPage" where
  "page_of_soup u soup =
     (let title_elem = or_else (bs_find (named ''h1'') soup) (bs_find (named ''title'') soup);
          t = (case title_elem of Some e \<Rightarrow> get_text [] e | None \<Rightarrow> ''Untitled'');
          clean = decompose_all [''script'', ''style'', ''nav''];
          sel = first_selector content_selectors soup;
          content_elem = (case sel of None \<Rightarrow> None | Some P \<Rightarrow> bs_find P soup);
          soup' = (case sel of
                     None \<Rightarrow> soup
                   | Some P \<Rightarrow> (case update_first P clean soup of None \<Rightarrow> soup | Some s \<Rightarrow> s));
          c = (case content_elem of Some e \<Rightarrow> get_text [CHR 0x0A] (clean e) | None \<Rightarrow> []);
          bs = extract_breadcrumbs soup';
          sec = (case bs of [] \<Rightarrow> ''General'' | b # _ \<Rightarrow> b);
          sub = (if length bs > 1 then Some (bs ! 1) else None)
      in \<lparr> url = u, title = t, content = c, page_section = sec, page_subsection = sub,
           breadcrumbs = bs \<rparr>)"

text \<open>\<open>_scrape_page\<close> returns \<open>None\<close> when the request raises.\<close>

definition scrape_page :: "web_env \<Rightarrow> string \<Rightarrow> DocPage option" where
  "scrape_page env u = map_option (page_of_soup u) (http_get env u)"

subsection \<open>\<open>_find_doc_links\<close>\<close>

text \<open>The values \<open>link['href']\<close> for \<open>link in soup.find_all('a', href=True)\<close>.\<close>

definition hrefs :: "node \<Rightarrow> string list" where
  "hrefs soup =
     List.map_filter (\<lambda>n. attr n ''href'') (bs_find_all (\<lambda>n. named ''a'' n \<and> attr n ''href'' \<noteq> None) soup)"

text \<open>
  The loop over the links. \<open>links\<close> is the list built so far; an exception raised by
  \<open>urljoin\<close> or \<open>urlparse\<close> is caught outside the loop, so the function then returns
  the links collected before it.
\<close>

fun collect_links ::
  "web_env \<Rightarrow> string set \<Rightarrow> string \<Rightarrow> string list \<Rightarrow> string list \<Rightarrow> string list" where
  "collect_links env visited u links [] = links"
| "collect_links env visited u links (href # rest) =
     (case urljoin env u href of
        None \<Rightarrow> links
      | Some full_url \<Rightarrow>
          (case urlparse env full_url of
             None \<Rightarrow> links
           | Some p \<Rightarrow>
               (case urlparse env BASE_URL of
                  None \<Rightarrow> links
                | Some b \<Rightarrow>
                    (if netloc p = netloc b
                     then (if CHR ''#'' \<notin> set full_url \<and> full_url \<notin> visited
                           then collect_links env visited u (links @ [full_url]) rest
                           else collect_links env visited u links rest)
                     else collect_links env visited u links rest))))"

definition find_doc_links :: "web_env \<Rightarrow> string set \<Rightarrow> string \<Rightarrow> string list" where
  "find_doc_links env visited u =
     (case http_get env u of
        None \<Rightarrow> []
      | Some soup \<Rightarrow> collect_links env visited u [] (hrefs soup))"

subsection \<open>\<open>scrape_docs\<close>\<close>

text \<open>
  The state of the loop: the list \<open>urls_to_visit\<close>, the set \<open>self.visited_urls\<close>, the
  list \<open>pages\<close>, and the URLs requested with \<open>session.get\<close> so far (\<open>_scrape_page\<close>
  and \<open>_find_doc_links\<close> make one request each). \<open>time.sleep(1)\<close> is not modelled.
\<close>

record crawl =
  urls_to_visit :: "string list"
  visited_urls :: "string set"
  pages :: "DocPage list"
  requests :: "string list"

text \<open>One iteration of \<open>while urls_to_visit\<close>, for a non-empty list.\<close>

definition scrape_docs_step :: "web_env \<Rightarrow> crawl \<Rightarrow> crawl" where
  "scrape_docs_step env s =
     (case urls_to_visit s of
        [] \<Rightarrow> s
      | u # rest \<Rightarrow>
          (if u \<in> visited_urls s then s\<lparr> urls_to_visit := rest \<rparr>
           else (case scrape_page env u of
                   None \<Rightarrow> s\<lparr> urls_to_visit := rest, requests := requests s @ [u] \<rparr>
                 | Some page \<Rightarrow>
                     (let visited = insert u (visited_urls s);
                          new_urls = find_doc_links env visited u
                      in s\<lparr> urls_to_visit := rest @ new_urls,
                            visited_urls := visited,
                            pages := pages s @ [page],
                            requests := requests s @ [u, u] \<rparr>))))"

text \<open>The loop; \<open>None\<close> is a loop that never ends.\<close>

partial_function (option) scrape_docs_loop :: "web_env \<Rightarrow> crawl \<Rightarrow> crawl option" where
  "scrape_docs_loop env s =
     (if urls_to_visit s = [] then Some s else scrape_docs_loop env (scrape_docs_step env s))"

declare scrape_docs_loop.simps [code]

text \<open>
  \<open>scrape_docs(start_url)\<close> on a scraper whose \<open>visited_urls\<close> is \<open>visited\<close> (empty
  for a new scraper).
\<close>

definition scrape_docs_init :: "string set \<Rightarrow> string option \<Rightarrow> crawl" where
  "scrape_docs_init visited start_url =
     \<lparr> urls_to_visit = [case start_url of None \<Rightarrow> BASE_URL | Some u \<Rightarrow> u],
       visited_urls = visited, pages = [], requests = [] \<rparr>"

definition scrape_docs :: "web_env \<Rightarrow> string set \<Rightarrow> string option \<Rightarrow> crawl option" where
  "scrape_docs env visited start_url = scrape_docs_loop env (scrape_docs_init visited start_url)"

subsection \<open>\<open>save_page\<close>\<close>

text \<open>
  \<open>Inl ValueError\<close> when \<open>urlparse\<close> rejects the URL of the page; the exception of
  \<open>open\<close> when the file cannot be opened.
\<close>

definition flat_path :: "string \<Rightarrow> string" where
  "flat_path p = str_replace ''/'' ''_'' (str_strip_chars ''/'' p)"


subsection \<open>Notions used to state the properties of the crawl\<close>

text \<open>Two URLs have the same domain when \<open>urlparse\<close> gives them the same \<open>netloc\<close>.\<close>

definition same_netloc :: "web_env \<Rightarrow> string \<Rightarrow> string \<Rightarrow> bool" where
  "same_netloc env a b =
     (case urlparse env a of
        None \<Rightarrow> False
      | Some p \<Rightarrow> (case urlparse env b of None \<Rightarrow> False | Some q \<Rightarrow> netloc p = netloc q))"

text \<open>
  No URL function raises while the links of the page at \<open>u\<close> are read: every link
  can be joined to \<open>u\<close> and parsed, and so can \<open>BASE_URL\<close>.
\<close>

definition no_url_error :: "web_env \<Rightarrow> string \<Rightarrow> node \<Rightarrow> bool" where
  "no_url_error env u soup =
     (urlparse env BASE_URL \<noteq> None
      \<and> list_all (\<lambda>href. case urljoin env u href of
                              None \<Rightarrow> False
                            | Some full_url \<Rightarrow> urlparse env full_url \<noteq> None) (hrefs soup))"

text \<open>
  The link graph that the crawl follows: an edge from \<open>u\<close> to every link that
  \<open>_find_doc_links\<close> returns for \<open>u\<close> when nothing has been visited; the pages
  reachable from a seed.
\<close>

definition doc_edges :: "web_env \<Rightarrow> (string \<times> string) set" where
  "doc_edges env = {(u, v). v \<in> set (find_doc_links env {} u)}"

definition reachable :: "web_env \<Rightarrow> string \<Rightarrow> string set" where
  "reachable env seed = (doc_edges env)\<^sup>* `` {seed}"

text \<open>
  The correspondence between the pages returned so far and the URLs added to
  \<open>visited_urls\<close> since the crawl began with \<open>visited_urls = v0\<close>.
\<close>

definition pages_match_visited :: "string set \<Rightarrow> crawl \<Rightarrow> bool" where
  "pages_match_visited v0 s =
     (distinct (map url (pages s))
      \<and> set (map url (pages s)) \<inter> v0 = {}
      \<and> visited_urls s = v0 \<union> set (map url (pages s)))"

text \<open>
  The invariant of a crawl from \<open>seed\<close> by a new scraper on a site whose reachable
  pages all load: what is pending or visited is reachable; the pages are those of the
  visited URLs, each once and each the extraction of its URL; each of them was
  requested twice; the links of a visited page are visited or pending, and so is the
  seed.
\<close>

definition crawl_inv :: "web_env \<Rightarrow> string \<Rightarrow> crawl \<Rightarrow> bool" where
  "crawl_inv env seed s =
     (set (urls_to_visit s) \<subseteq> reachable env seed
      \<and> visited_urls s \<subseteq> reachable env seed
      \<and> visited_urls s = set (map url (pages s))
      \<and> distinct (map url (pages s))
      \<and> list_all (\<lambda>p. scrape_page env (url p) = Some p) (pages s)
      \<and> requests s = concat (map (\<lambda>p. [url p, url p]) (pages s))
      \<and> (\<forall>u \<in> visited_urls s. set (find_doc_links env {} u) \<subseteq> visited_urls s \<union> set (urls_to_visit s))
      \<and> seed \<in> visited_urls s \<union> set (urls_to_visit s))"


section \<open>The blog scraper (\<open>blog_scraper.py\<close>)\<close>

record BlogPost =
  url :: string
  title :: string
  author :: "string option"
  published :: "string option"
  content :: string
  excerpt :: string
  tags :: "string list"
  source :: string

text \<open>\<open>SOURCES['category_labs']\<close>.\<close>

definition category_labs_url :: string where
  "category_labs_url = ''https://blog.categorylabs.xyz''"

subsection \<open>The field extractors\<close>




subsection \<open>\<open>_fetch_post_content\<close>\<close>


subsection \<open>\<open>scrape_category_labs\<close>\<close>



subsection \<open>\<open>save_post\<close> and the saving loop of \<open>main\<close>\<close>

text \<open>\<open>post.title.lower().replace(' ', '_')[:50]\<close>.\<close>

definition title_slug :: "string \<Rightarrow> string" where
  "title_slug t = take 50 (str_replace '' '' ''_'' (str_lower t))"

text \<open>
  \<open>Inl ValueError\<close> when \<open>urlparse\<close> rejects the URL of the post; the exception of
  \<open>open\<close> when the file cannot be opened (only the spaces of a title are replaced,
  so the name made from a title can contain \<open>/\<close>).
\<close>

definition save_post ::
  "web_env \<Rightarrow> (string \<rightharpoonup> BlogPost) \<Rightarrow> BlogPost \<Rightarrow> exn + (string \<rightharpoonup> BlogPost) \<times> string" where
  "save_post env dir post =
     (case urlparse env (url post) of
        None \<Rightarrow> Inl ValueError
      | Some parts \<Rightarrow>
          (let f = flat_path (path parts);
               f' = (if f = [] then title_slug (title post) else f);
               filename = f' @ ''.json''
           in write_file (file_open env) dir filename post))"


subsection \<open>\<open>filter_monadbft_posts\<close>\<close>

text \<open>The list \<open>keywords\<close> of the function.\<close>

definition monadbft_keywords :: "string list" where
  "monadbft_keywords = [''monadbft'', ''hotstuff'', ''bft'', ''consensus'',
               ''byzantine'', ''finality'', ''fork'', ''blockchain'']"

text \<open>The f-string \<open>f"{post.title} {post.content} {' '.join(post.tags)}".lower()\<close>.\<close>

definition post_text :: "BlogPost \<Rightarrow> string" where
  "post_text post =
     str_lower (title post @ '' '' @ content post @ '' '' @ str_join '' '' (tags post))"

text \<open>The loop \<open>for post in posts\<close>; \<open>filtered\<close> is the list built so far.\<close>

fun filter_loop :: "BlogPost list \<Rightarrow> BlogPost list \<Rightarrow> BlogPost list" where
  "filter_loop filtered [] = filtered"
| "filter_loop filtered (post # rest) =
     (if \<exists>keyword \<in> set monadbft_keywords. str_contains keyword (post_text post)
      then filter_loop (filtered @ [post]) rest
      else filter_loop filtered rest)"

definition filter_monadbft_posts :: "BlogPost list \<Rightarrow> BlogPost list" where
  "filter_monadbft_posts posts = filter_loop [] posts"

text \<open>
  Matching up to the case of the letters, stated without the functions above. A
  capital letter has a code point from 65 to 90 or, in the Latin-1 block, from 192 to
  222 other than 215; its small letter is 32 code points above. Two characters are
  the same letter when they are equal or one is the capital of the other. A keyword
  occurs case-insensitively in a text when some contiguous piece of the text agrees
  with the keyword letter by letter.
\<close>

definition is_capital :: "char \<Rightarrow> bool" where
  "is_capital c =
     (let n = (of_char c :: nat)
      in (65 \<le> n \<and> n \<le> 90) \<or> (192 \<le> n \<and> n \<le> 222 \<and> n \<noteq> 215))"

definition same_letter :: "char \<Rightarrow> char \<Rightarrow> bool" where
  "same_letter a b =
     (a = b
      \<or> (is_capital a \<and> (of_char b :: nat) = of_char a + 32)
      \<or> (is_capital b \<and> (of_char a :: nat) = of_char b + 32))"

definition occurs_ci :: "string \<Rightarrow> string \<Rightarrow> bool" where
  "occurs_ci keyword t = (\<exists>ps w ss. t = ps @ w @ ss \<and> list_all2 same_letter w keyword)"

text \<open>The fields of a post that the filter reads: the title, the content and each tag.\<close>

definition post_fields :: "BlogPost \<Rightarrow> string list" where
  "post_fields post = title post # content post # tags post"


section \<open>A reference environment\<close>

text \<open>
  The URL functions of CPython's \<open>urllib.parse\<close> (version 3.11), for the examples
  below: \<open>urlsplit\<close>, \<open>urlparse\<close>, \<open>urlunparse\<close> and \<open>urljoin\<close>, without the checks
  that raise \<open>ValueError\<close> (bracketed hosts, characters that normalise to delimiters).
  The general statements are about any environment; these definitions only give the
  examples a concrete one.
\<close>

definition uses_relative :: "string list" where
  "uses_relative = ['''', ''ftp'', ''http'', ''gopher'', ''nntp'', ''imap'', ''wais'', ''file'',
     ''https'', ''shttp'', ''mms'', ''prospero'', ''rtsp'', ''rtspu'', ''sftp'', ''svn'',
     ''svn+ssh'', ''ws'', ''wss'']"

definition uses_netloc :: "string list" where
  "uses_netloc = ['''', ''ftp'', ''http'', ''gopher'', ''nntp'', ''telnet'', ''imap'', ''wais'',
     ''file'', ''mms'', ''https'', ''shttp'', ''snews'', ''prospero'', ''rtsp'', ''rtspu'',
     ''rsync'', ''svn'', ''svn+ssh'', ''sftp'', ''nfs'', ''git'', ''git+ssh'', ''ws'', ''wss'']"

definition uses_params :: "string list" where
  "uses_params = ['''', ''ftp'', ''hdl'', ''prospero'', ''http'', ''imap'', ''https'', ''shttp'',
     ''rtsp'', ''rtspu'', ''sip'', ''sips'', ''mms'', ''sftp'', ''tel'']"

definition scheme_chars :: string where
  "scheme_chars = ''abcdefghijklmnopqrstuvwxyzABCDEFGHIJKLMNOPQRSTUVWXYZ0123456789+-.''"

definition is_ascii_alpha :: "char \<Rightarrow> bool" where
  "is_ascii_alpha c = (let n = (of_char c :: nat) in (65 \<le> n \<and> n \<le> 90) \<or> (97 \<le> n \<and> n \<le> 122))"

text \<open>\<open>s.split(c, 1)\<close> for a character \<open>c\<close> that occurs in \<open>s\<close>.\<close>

definition before :: "char \<Rightarrow> string \<Rightarrow> string" where
  "before c s = takeWhile (\<lambda>x. x \<noteq> c) s"

definition after :: "char \<Rightarrow> string \<Rightarrow> string" where
  "after c s = drop 1 (dropWhile (\<lambda>x. x \<noteq> c) s)"

text \<open>
  \<open>urlsplit\<close>, statement by statement: leading control characters and spaces and
  all tabs and line breaks are removed; then the scheme, the network location, the
  fragment and the query are split off in this order. Each step takes what the steps
  before it produced.
\<close>

definition clean_url :: "string \<Rightarrow> string" where
  "clean_url u =
     filter (\<lambda>c. c \<notin> set [CHR 0x09, CHR 0x0D, CHR 0x0A]) (dropWhile (\<lambda>c. (of_char c :: nat) \<le> 32) u)"

definition has_scheme :: "string \<Rightarrow> bool" where
  "has_scheme pre = (pre \<noteq> [] \<and> is_ascii_alpha (hd pre) \<and> (\<forall>c \<in> set pre. c \<in> set scheme_chars))"

text \<open>The scheme and the rest of the URL.\<close>

definition split_scheme :: "string \<Rightarrow> string \<Rightarrow> string \<times> string" where
  "split_scheme default_scheme u =
     (if CHR '':'' \<in> set u \<and> has_scheme (before CHR '':'' u)
      then (str_lower (before CHR '':'' u), after CHR '':'' u)
      else (default_scheme, u))"

text \<open>The network location and the rest (\<open>_splitnetloc\<close>).\<close>

definition split_netloc :: "string \<Rightarrow> string \<times> string" where
  "split_netloc u =
     (if take 2 u = ''//''
      then (takeWhile (\<lambda>c. c \<notin> set ''/?#'') (drop 2 u), dropWhile (\<lambda>c. c \<notin> set ''/?#'') (drop 2 u))
      else ([], u))"

text \<open>\<open>u, x = u.split(c, 1)\<close> when \<open>c\<close> occurs in \<open>u\<close>, and \<open>x = ''\<close> otherwise.\<close>

definition split_at :: "char \<Rightarrow> string \<Rightarrow> string \<times> string" where
  "split_at c u = (if c \<in> set u then (before c u, after c u) else (u, []))"

fun urlsplit_rest :: "string \<times> string \<Rightarrow> string \<times> string \<times> string \<times> string \<times> string" where
  "urlsplit_rest (sch, u) =
     (case split_netloc u of
        (nl, u3) \<Rightarrow>
          (case split_at CHR ''#'' u3 of
             (u4, frag) \<Rightarrow>
               (case split_at CHR ''?'' u4 of
                  (u5, qry) \<Rightarrow> (sch, nl, u5, qry, frag))))"

definition py_urlsplit :: "string \<Rightarrow> string \<Rightarrow> string \<times> string \<times> string \<times> string \<times> string" where
  "py_urlsplit u default_scheme = urlsplit_rest (split_scheme default_scheme (clean_url u))"

text \<open>\<open>_splitparams\<close>: the parameters are those of the last path segment.\<close>

definition last_segment :: "string \<Rightarrow> string" where
  "last_segment u = rev (takeWhile (\<lambda>x. x \<noteq> CHR ''/'') (rev u))"

definition splitparams :: "string \<Rightarrow> string \<times> string" where
  "splitparams u =
     (if CHR ''/'' \<in> set u
      then (if CHR '';'' \<in> set (last_segment u)
            then (take (length u - length (last_segment u)) u @ before CHR '';'' (last_segment u),
                  after CHR '';'' (last_segment u))
            else (u, []))
      else (before CHR '';'' u, after CHR '';'' u))"

fun urlparse_of_split :: "string \<times> string \<times> string \<times> string \<times> string \<Rightarrow> url_parts" where
  "urlparse_of_split (sch, nl, p, qry, frag) =
     (case (if sch \<in> set uses_params \<and> CHR '';'' \<in> set p then splitparams p else (p, [])) of
        (p', prm) \<Rightarrow>
          \<lparr> scheme = sch, netloc = nl, path = p', params = prm, query = qry, fragment = frag \<rparr>)"

definition py_urlparse_with :: "string \<Rightarrow> string \<Rightarrow> url_parts" where
  "py_urlparse_with u default_scheme = urlparse_of_split (py_urlsplit u default_scheme)"

definition py_urlparse :: "string \<Rightarrow> url_parts" where
  "py_urlparse u = py_urlparse_with u []"

text \<open>\<open>urlunparse\<close> and, inside it, \<open>urlunsplit\<close>.\<close>

definition with_params :: "string \<Rightarrow> string \<Rightarrow> string" where
  "with_params p prm = (if prm \<noteq> [] then p @ '';'' @ prm else p)"

definition with_netloc :: "string \<Rightarrow> string \<Rightarrow> string \<Rightarrow> string" where
  "with_netloc sch nl u =
     (if nl \<noteq> [] \<or> (sch \<noteq> [] \<and> sch \<in> set uses_netloc \<and> take 2 u \<noteq> ''//'')
      then ''//'' @ nl @ (if u \<noteq> [] \<and> take 1 u \<noteq> ''/'' then ''/'' @ u else u)
      else u)"

definition py_urlunparse :: "url_parts \<Rightarrow> string" where
  "py_urlunparse c =
     (if scheme c \<noteq> [] then scheme c @ '':'' else [])
     @ with_netloc (scheme c) (netloc c) (with_params (path c) (params c))
     @ (if query c \<noteq> [] then ''?'' @ query c else [])
     @ (if fragment c \<noteq> [] then ''#'' @ fragment c else [])"

text \<open>The loop of \<open>urljoin\<close> that resolves the segments \<open>.\<close> and \<open>..\<close>.\<close>

fun resolve_segments :: "string list \<Rightarrow> string list \<Rightarrow> string list" where
  "resolve_segments resolved [] = resolved"
| "resolve_segments resolved (seg # segs) =
     (if seg = ''..'' then resolve_segments (butlast resolved) segs
      else if seg = ''.'' then resolve_segments resolved segs
      else resolve_segments (resolved @ [seg]) segs)"

text \<open>
  The segments of the base path without its last one when that is not empty, and the
  segments to resolve: those of an absolute path alone, else those of the base
  followed by those of the reference, the empty ones in the middle dropped.
\<close>

definition base_parts :: "string \<Rightarrow> string list" where
  "base_parts bpath =
     (if last (str_split ''/'' bpath) \<noteq> [] then butlast (str_split ''/'' bpath)
      else str_split ''/'' bpath)"

definition drop_empty_middle :: "string list \<Rightarrow> string list" where
  "drop_empty_middle segs =
     (if length segs \<ge> 2
      then hd segs # filter (\<lambda>x. x \<noteq> []) (butlast (tl segs)) @ [last segs]
      else segs)"

definition join_segments :: "string \<Rightarrow> string \<Rightarrow> string list" where
  "join_segments bpath p =
     (if take 1 p = ''/'' then str_split ''/'' p
      else drop_empty_middle (base_parts bpath @ str_split ''/'' p))"

definition resolved_path :: "string list \<Rightarrow> string" where
  "resolved_path segments =
     (let j = str_join ''/''
                (resolve_segments [] segments
                 @ (if last segments \<in> {''.'', ''..''} then [[]] else []))
      in if j = [] then ''/'' else j)"

text \<open>\<open>urljoin\<close> once the base and the reference have been parsed.\<close>

definition join_parsed :: "string \<Rightarrow> url_parts \<Rightarrow> url_parts \<Rightarrow> string" where
  "join_parsed u b r =
     (if scheme r \<noteq> scheme b \<or> scheme r \<notin> set uses_relative then u
      else if scheme r \<in> set uses_netloc \<and> netloc r \<noteq> [] then py_urlunparse r
      else if path r = [] \<and> params r = []
      then py_urlunparse
             (r\<lparr> netloc := (if scheme r \<in> set uses_netloc then netloc b else netloc r),
                  path := path b, params := params b,
                  query := (if query r = [] then query b else query r) \<rparr>)
      else py_urlunparse
             (r\<lparr> netloc := (if scheme r \<in> set uses_netloc then netloc b else netloc r),
                  path := resolved_path (join_segments (path b) (path r)) \<rparr>))"

definition join_with_base :: "string \<Rightarrow> url_parts \<Rightarrow> string" where
  "join_with_base u b = join_parsed u b (py_urlparse_with u (scheme b))"

definition py_urljoin :: "string \<Rightarrow> string \<Rightarrow> string" where
  "py_urljoin base u =
     (if base = [] then u else if u = [] then base
      else join_with_base u (py_urlparse_with base []))"

text \<open>
  \<open>open\<close> in an output directory that holds nothing but the files the scraper has
  written: a name with a \<open>/\<close> is a path through a subdirectory that does not exist.
\<close>

definition posix_open :: "string \<Rightarrow> exn option" where
  "posix_open filename = (if CHR ''/'' \<in> set filename then Some FileNotFoundError else None)"

text \<open>A static site given as a table from URLs to pages.\<close>

definition site_env :: "(string \<times> node) list \<Rightarrow> web_env" where
  "site_env site =
     \<lparr> http_get = map_of site,
       urljoin = (\<lambda>base u. Some (py_urljoin base u)),
       urlparse = (\<lambda>u. Some (py_urlparse u)),
       file_open = posix_open \<rparr>"

text \<open>A link \<open><a href=h>label</a>\<close> and a page whose body is the given nodes.\<close>

definition link :: "string \<Rightarrow> string \<Rightarrow> node" where
  "link h label = Tag ''a'' [(''href'', h)] [NavigableString label]"

definition html_page :: "node list \<Rightarrow> node" where
  "html_page body = Tag ''[document]'' [] [Tag ''html'' [] [Tag ''body'' [] body]]"


section \<open>Example inputs\<close>

subsection \<open>arXiv feeds\<close>

definition atom :: "string \<Rightarrow> string option \<Rightarrow> element list \<Rightarrow> element" where
  "atom local txt cs = Element (qname ''atom'' local) [] txt cs"

text \<open>An environment whose API answers every request with a feed of the given entries.\<close>

definition feed_env :: "element list \<Rightarrow> arxiv_env" where
  "feed_env entries =
     \<lparr> api_get = (\<lambda>params. Some ''<feed>...</feed>''),
       fromstring = (\<lambda>txt. if txt = ''<feed>...</feed>''
                            then Some (atom ''feed'' None (atom ''title'' (Some ''ArXiv Query'') [] # entries))
                            else None),
       open_w = posix_open \<rparr>"

definition monadbft_entry :: element where
  "monadbft_entry = atom ''entry'' None
     [atom ''id'' (Some ''http://arxiv.org/abs/2502.20692v1'') [],
      atom ''updated'' (Some ''2025-03-01T00:00:00Z'') [],
      atom ''published'' (Some ''2025-02-28T00:00:00Z'') [],
      atom ''title'' (Some ''MonadBFT: Fast, Responsive BFT'') [],
      atom ''summary'' (Some '' A pipelined BFT protocol. '') [],
      atom ''author'' None [atom ''name'' (Some ''A. Author'') []],
      Element (qname ''atom'' ''category'') [(''term'', ''cs.DC'')] None []]"

definition monadbft_paper :: ArxivPaper where
  "monadbft_paper =
     \<lparr> paper_id = ''2502.20692v1'',
       title = ''MonadBFT: Fast, Responsive BFT'',
       authors = [Some ''A. Author''],
       abstract = ''A pipelined BFT protocol.'',
       published = Some ''2025-02-28T00:00:00Z'',
       updated = Some ''2025-03-01T00:00:00Z'',
       pdf_url = ''https://arxiv.org/pdf/2502.20692v1.pdf'',
       arxiv_url = ''https://arxiv.org/abs/2502.20692v1'',
       categories = [Some ''cs.DC''],
       doi = None,
       journal_ref = None \<rparr>"

text \<open>A paper with a given id and title.\<close>

definition paper_with_id :: "string \<Rightarrow> string \<Rightarrow> ArxivPaper" where
  "paper_with_id i t = monadbft_paper\<lparr> paper_id := i, ArxivPaper.title := t \<rparr>"

text \<open>An entry without \<open>title\<close> and one without \<open>summary\<close>.\<close>

definition untitled_entry :: element where
  "untitled_entry = atom ''entry'' None
     [atom ''id'' (Some ''http://arxiv.org/abs/1803.05069v6'') [],
      atom ''updated'' (Some ''2019-07-23T00:00:00Z'') [],
      atom ''published'' (Some ''2018-03-13T00:00:00Z'') [],
      atom ''summary'' (Some ''HotStuff.'') []]"

definition no_summary_entry :: element where
  "no_summary_entry = atom ''entry'' None
     [atom ''id'' (Some ''http://arxiv.org/abs/1804.01626v3'') [],
      atom ''updated'' (Some ''2018-09-01T00:00:00Z'') [],
      atom ''published'' (Some ''2018-04-04T00:00:00Z'') [],
      atom ''title'' (Some ''SBFT'') []]"

subsection \<open>Blog posts\<close>

definition post_titled :: "string \<Rightarrow> string \<Rightarrow> BlogPost" where
  "post_titled u t =
     \<lparr> url = u, title = t, author = None, published = None, content = [], excerpt = [],
       tags = [], source = ''category_labs'' \<rparr>"

text \<open>A post with a given title, content and tags.\<close>

definition post_with :: "string \<Rightarrow> string \<Rightarrow> string list \<Rightarrow> BlogPost" where
  "post_with t c ts =
     \<lparr> url = ''https://blog.categorylabs.xyz/post'', title = t, author = None,
       published = None, content = c, excerpt = [], tags = ts, source = ''category_labs'' \<rparr>"

subsection \<open>A documentation site\<close>

text \<open>
  Three pages with cross-links and cycles back to the seed, an anchor link, a link
  with a fragment and a link to another domain.
\<close>

definition intro_url :: string where
  "intro_url = ''https://docs.monad.xyz/intro''"

definition monadbft_url :: string where
  "monadbft_url = ''https://docs.monad.xyz/consensus/monadbft''"

definition home_page :: node where
  "home_page = html_page
     [Tag ''h1'' [] [NavigableString ''Monad Docs''],
      Tag ''main'' []
        [link ''intro'' ''Introduction'',
         link ''/consensus/monadbft'' ''MonadBFT'',
         link ''#top'' ''Back to top'']]"

definition intro_page :: node where
  "intro_page = html_page
     [Tag ''nav'' [(''class'', ''breadcrumbs'')]
        [link ''https://docs.monad.xyz'' ''Docs'', link ''/intro'' ''Introduction''],
      Tag ''main'' []
        [Tag ''h1'' [] [NavigableString ''Introduction''],
         Tag ''p'' [] [NavigableString ''Monad is a layer-1 blockchain.''],
         link ''https://github.com/monad-labs'' ''GitHub'',
         link ''/consensus/monadbft#pipelining'' ''Pipelining'',
         link ''consensus/monadbft'' ''MonadBFT'']]"

definition monadbft_page :: node where
  "monadbft_page = html_page
     [Tag ''ol'' [(''class'', ''breadcrumb'')]
        [Tag ''li'' [] [link ''https://docs.monad.xyz'' ''Docs''],
         Tag ''li'' [] [link ''../intro'' ''Consensus'']],
      Tag ''article'' []
        [Tag ''h1'' [] [NavigableString ''MonadBFT''],
         link ''monadbft'' ''Permalink'']]"

definition docs_site :: "(string \<times> node) list" where
  "docs_site = [(BASE_URL, home_page), (intro_url, intro_page), (monadbft_url, monadbft_page)]"

text \<open>A site of one page without links.\<close>

definition single_page_site :: "(string \<times> node) list" where
  "single_page_site = [(BASE_URL, html_page [Tag ''h1'' [] [NavigableString ''Monad Docs'']])]"

text \<open>A page whose breadcrumb navigation lies inside the main content.\<close>

definition getting_started_url :: string where
  "getting_started_url = ''https://docs.monad.xyz/getting-started''"

definition getting_started_page :: node where
  "getting_started_page = html_page
     [Tag ''main'' []
        [Tag ''nav'' [(''class'', ''breadcrumbs'')]
           [link ''https://docs.monad.xyz'' ''Docs'', link ''/getting-started'' ''Getting Started''],
         Tag ''h1'' [] [NavigableString ''Getting Started''],
         Tag ''p'' [] [NavigableString ''Install the client.'']]]"

subsection \<open>A blog front page\<close>




subsection \<open>Records to save\<close>



subsection \<open>Posts for the keyword filter\<close>

text \<open>
  Posts that match in the title, nowhere, in the content only and in a tag only, and
  a post in which keywords arise only across the boundary of two fields.
\<close>

definition filter_examples :: "BlogPost list" where
  "filter_examples =
     [post_with ''MonadBFT update'' [] [],
      post_with ''Cooking tips'' ''Slow food.'' [''recipes''],
      post_with ''Weekly notes'' ''On Byzantine generals.'' [],
      post_with ''Release'' ''Version 2.'' [''news'', ''Consensus''],
      post_with ''Notes on B'' ''FT protocols'' [''H'', ''otstuff'']]"
section \<open>Properties of the arXiv scraper\<close>

lemma remove_duplicates_acc:
  "remove_duplicates seen acc ps = acc @ remove_duplicates seen [] ps"
proof (induction ps arbitrary: seen acc)
  case Nil
  show ?case by simp
next
  case (Cons p ps)
  have a: "remove_duplicates (insert (paper_id p) seen) (acc @ [p]) ps
             = acc @ [p] @ remove_duplicates (insert (paper_id p) seen) [] ps"
    using Cons.IH[of "insert (paper_id p) seen" "acc @ [p]"] by simp
  have b: "remove_duplicates (insert (paper_id p) seen) [p] ps
             = [p] @ remove_duplicates (insert (paper_id p) seen) [] ps"
    using Cons.IH[of "insert (paper_id p) seen" "[p]"] by simp
  show ?case
  proof (cases "paper_id p \<in> seen")
    case True
    then show ?thesis using Cons.IH[of seen acc] by simp
  next
    case False
    then show ?thesis using a b by simp
  qed
qed

lemma remove_duplicates_filter:
  "remove_duplicates seen [] ps
     = filter (\<lambda>p. paper_id p \<notin> seen) (remove_duplicates {} [] ps)"
proof (induction ps arbitrary: seen)
  case Nil
  show ?case by simp
next
  case (Cons p ps)
  have step: "\<And>s. remove_duplicates (insert (paper_id p) s) [p] ps
                = p # remove_duplicates (insert (paper_id p) s) [] ps"
    using remove_duplicates_acc[of _ "[p]" ps] by simp
  have ih1: "remove_duplicates (insert (paper_id p) seen) [] ps
               = filter (\<lambda>q. paper_id q \<notin> insert (paper_id p) seen) (remove_duplicates {} [] ps)"
    by (rule Cons.IH)
  have ih2: "remove_duplicates {paper_id p} [] ps
               = filter (\<lambda>q. paper_id q \<notin> {paper_id p}) (remove_duplicates {} [] ps)"
    by (rule Cons.IH)
  have ih3: "remove_duplicates seen [] ps
               = filter (\<lambda>q. paper_id q \<notin> seen) (remove_duplicates {} [] ps)"
    by (rule Cons.IH)
  show ?case
  proof (cases "paper_id p \<in> seen")
    case True
    have "filter (\<lambda>q. paper_id q \<notin> seen)
            (filter (\<lambda>q. paper_id q \<notin> {paper_id p}) (remove_duplicates {} [] ps))
          = filter (\<lambda>q. paper_id q \<notin> seen) (remove_duplicates {} [] ps)"
      using True by (auto intro: filter_cong)
    then show ?thesis using True ih2 ih3 step[of "{}"] by simp
  next
    case False
    have "filter (\<lambda>q. paper_id q \<notin> seen)
            (filter (\<lambda>q. paper_id q \<notin> {paper_id p}) (remove_duplicates {} [] ps))
          = filter (\<lambda>q. paper_id q \<notin> insert (paper_id p) seen) (remove_duplicates {} [] ps)"
      by (auto intro: filter_cong)
    then show ?thesis using False ih1 ih2 step[of seen] step[of "{}"] by simp
  qed
qed

lemma remove_duplicates_Cons:
  "remove_duplicates {} [] (p # ps)
     = p # filter (\<lambda>q. paper_id q \<noteq> paper_id p) (remove_duplicates {} [] ps)"
proof -
  have "remove_duplicates {} [] (p # ps) = p # remove_duplicates {paper_id p} [] ps"
    using remove_duplicates_acc[of "{paper_id p}" "[p]" ps] by simp
  then show ?thesis
    using remove_duplicates_filter[of "{paper_id p}" ps] by simp
qed

lemma ids_filter_neq:
  "set (map f (filter (\<lambda>q. f q \<noteq> a) xs)) = set (map f xs) - {a}"
  by (induction xs) auto

lemma find_filter_neq:
  "a \<noteq> k \<Longrightarrow>
   List.find (\<lambda>q. f q = k) (filter (\<lambda>q. f q \<noteq> a) xs) = List.find (\<lambda>q. f q = k) xs"
  by (induction xs) auto

lemma remove_duplicates_ids:
  "set (map paper_id (remove_duplicates {} [] ps)) = set (map paper_id ps)"
proof (induction ps)
  case Nil
  show ?case by simp
next
  case (Cons p ps)
  have "set (map paper_id (remove_duplicates {} [] (p # ps)))
          = insert (paper_id p) (set (map paper_id (remove_duplicates {} [] ps)) - {paper_id p})"
    unfolding remove_duplicates_Cons
    using ids_filter_neq[of paper_id "paper_id p" "remove_duplicates {} [] ps"]
    by (simp del: set_map set_filter)
  then show ?case using Cons by auto
qed

lemma remove_duplicates_distinct:
  "distinct (map paper_id (remove_duplicates {} [] ps))"
proof (induction ps)
  case Nil
  show ?case by simp
next
  case (Cons p ps)
  then show ?case unfolding remove_duplicates_Cons
    by (auto simp: distinct_map_filter)
qed

lemma remove_duplicates_first:
  "first_with_id k (remove_duplicates {} [] ps) = first_with_id k ps"
proof (induction ps)
  case Nil
  show ?case by simp
next
  case (Cons p ps)
  show ?case
  proof (cases "paper_id p = k")
    case True
    then show ?thesis unfolding remove_duplicates_Cons first_with_id_def by simp
  next
    case False
    have "first_with_id k (remove_duplicates {} [] (p # ps))
            = List.find (\<lambda>q. paper_id q = k)
                (filter (\<lambda>q. paper_id q \<noteq> paper_id p) (remove_duplicates {} [] ps))"
      unfolding remove_duplicates_Cons first_with_id_def using False by simp
    also have "\<dots> = List.find (\<lambda>q. paper_id q = k) (remove_duplicates {} [] ps)"
      using False by (rule find_filter_neq)
    also have "\<dots> = first_with_id k ps"
      using Cons unfolding first_with_id_def .
    also have "\<dots> = first_with_id k (p # ps)"
      unfolding first_with_id_def using False by simp
    finally show ?thesis .
  qed
qed

lemma remove_duplicates_order:
  "map paper_id (remove_duplicates {} [] ps) = rev (remdups (rev (map paper_id ps)))"
proof (induction ps)
  case Nil
  show ?case by simp
next
  case (Cons p ps)
  have r: "\<And>(x::string) xs. remdups (xs @ [x]) = filter (\<lambda>y. y \<noteq> x) (remdups xs) @ [x]"
    by (induct_tac xs) auto
  have "map paper_id (filter (\<lambda>q. paper_id q \<noteq> paper_id p) (remove_duplicates {} [] ps))
        = filter (\<lambda>y. y \<noteq> paper_id p) (map paper_id (remove_duplicates {} [] ps))"
    by (simp add: filter_map comp_def)
  then show ?case
    unfolding remove_duplicates_Cons using Cons by (simp add: r rev_filter)
qed

lemma remove_duplicates_subseq: "subseq (remove_duplicates {} [] ps) ps"
proof (induction ps)
  case Nil
  show ?case by simp
next
  case (Cons p ps)
  have "subseq (filter (\<lambda>q. paper_id q \<noteq> paper_id p) (remove_duplicates {} [] ps))
          (remove_duplicates {} [] ps)"
    by simp
  then have "subseq (filter (\<lambda>q. paper_id q \<noteq> paper_id p) (remove_duplicates {} [] ps)) ps"
    using Cons subseq_order.order_trans by blast
  then show ?case unfolding remove_duplicates_Cons by simp
qed

text \<open>
  Claim C3. For every list of papers, with paper ids repeated in any order, the
  duplicate removal of \<open>fetch_related_papers\<close> returns papers with pairwise distinct
  ids, the same set of ids as the input, for every id the first paper of the input
  that carries it, and in the order of the first occurrences (the result is a
  subsequence of the input, and its ids are those of the input with every later
  repetition dropped).
\<close>

theorem C3_dedupe_first_occurrence:
  "distinct (map paper_id (remove_duplicates {} [] ps))
   \<and> set (map paper_id (remove_duplicates {} [] ps)) = set (map paper_id ps)
   \<and> first_with_id k (remove_duplicates {} [] ps) = first_with_id k ps
   \<and> subseq (remove_duplicates {} [] ps) ps
   \<and> map paper_id (remove_duplicates {} [] ps) = rev (remdups (rev (map paper_id ps)))"
  using remove_duplicates_distinct[of ps] remove_duplicates_ids[of ps]
    remove_duplicates_first[of k ps] remove_duplicates_subseq[of ps]
    remove_duplicates_order[of ps]
  by blast

text \<open>The example of identities \<open>[A, B, A, C, B]\<close>: the first papers with \<open>A\<close>, \<open>B\<close> and \<open>C\<close> remain.\<close>

lemma remove_duplicates_example:
  "map (\<lambda>p. (paper_id p, ArxivPaper.title p))
     (remove_duplicates {} []
        [paper_with_id ''A'' ''first A'', paper_with_id ''B'' ''first B'',
         paper_with_id ''A'' ''second A'', paper_with_id ''C'' ''only C'',
         paper_with_id ''B'' ''second B''])
   = [(''A'', ''first A''), (''B'', ''first B''), (''C'', ''only C'')]"
  by code_simp

subsection \<open>Entries without a required field\<close>

lemma text_of_error: "text_of r = Inl e \<Longrightarrow> e = AttributeError"
  by (auto simp: text_of_def split: option.splits)

lemma str_text_of_None: "str_text_of None = Inl AttributeError"
  by (simp add: str_text_of_def text_of_def)

lemma text_of_None: "text_of None = Inl AttributeError"
  by (simp add: text_of_def)

lemma str_text_of_error: "str_text_of r = Inl e \<Longrightarrow> e = AttributeError"
  by (auto simp: str_text_of_def text_of_def as_str_def split: option.splits sum.splits)

lemma author_names_error: "author_names as = Inl e \<Longrightarrow> e = AttributeError"
  by (induction as arbitrary: e) (auto split: sum.splits dest: text_of_error)

lemma entry_fields_error: "entry_fields entry = Inl e \<Longrightarrow> e = AttributeError"
  unfolding entry_fields_def
  by (auto split: sum.splits simp: Let_def
      dest: str_text_of_error text_of_error author_names_error)

lemma entry_fields_missing:
  assumes "missing_required entry"
  shows "entry_fields entry = Inl AttributeError"
proof -
  have "\<exists>e. entry_fields entry = Inl e"
    using assms unfolding missing_required_def entry_fields_def
    by (auto split: sum.splits simp: Let_def str_text_of_None text_of_None)
  then show ?thesis using entry_fields_error by blast
qed

lemma search_entries_raises:
  "entry \<in> set entries \<Longrightarrow> entry_fields entry = Inl e \<Longrightarrow> \<exists>e'. search_entries entries = Inl e'"
  by (induction entries) (auto split: sum.splits)

lemma et_find_None: "et_findall root pfx local = [] \<Longrightarrow> et_find root pfx local = None"
  by (simp add: et_findall_def et_find_def find_None_iff filter_empty_conv)

text \<open>
  Claim C5. When the response is well formed (\<open>ET.fromstring\<close> returns a root element)
  and the root has no \<open>atom:entry\<close> child, \<open>_parse_response\<close> returns \<open>None\<close>; no
  exception leaves it.
\<close>

theorem C5_no_entry_gives_None:
  assumes "fromstring env xml_response = Some root"
    and "et_findall root ''atom'' ''entry'' = []"
  shows "parse_response (fromstring env) xml_response = Inr None"
  using assms by (simp add: parse_response_def et_find_None)

theorem C5_no_entry_gives_None_witness:
  "fromstring (feed_env []) ''<feed>...</feed>'' = Some (atom ''feed'' None [atom ''title'' (Some ''ArXiv Query'') []])
   \<and> et_findall (atom ''feed'' None [atom ''title'' (Some ''ArXiv Query'') []]) ''atom'' ''entry'' = []
   \<and> parse_response (fromstring (feed_env [])) ''<feed>...</feed>'' = Inr None"
proof -
  have a: "fromstring (feed_env []) ''<feed>...</feed>''
             = Some (atom ''feed'' None [atom ''title'' (Some ''ArXiv Query'') []])"
    by (simp add: feed_env_def)
  have b: "et_findall (atom ''feed'' None [atom ''title'' (Some ''ArXiv Query'') []]) ''atom'' ''entry'' = []"
    by (simp add: et_findall_def atom_def qname_def ns_def)
  show ?thesis using a b C5_no_entry_gives_None[OF a b] by simp
qed

text \<open>
  Claim C2, as amended. Let an entry lack one of the required children. In
  single-item parsing, when it is the entry that \<open>_parse_response\<close> reads, the call
  raises \<open>AttributeError\<close>, which \<open>_parse_response\<close> does not catch (it catches
  \<open>ET.ParseError\<close> only) and \<open>fetch_paper\<close> does not catch either. In batch search,
  when it is any entry of the response, \<open>search_papers\<close> returns the empty list: no
  exception leaves it, and no entry of the response is returned.
\<close>

theorem C2_missing_field_raises_or_empties:
  assumes "missing_required entry"
    and "fromstring env txt = Some root"
  shows "(et_find root ''atom'' ''entry'' = Some entry \<longrightarrow>
            parse_response (fromstring env) txt = Inl AttributeError)
       \<and> (et_find root ''atom'' ''entry'' = Some entry \<longrightarrow> api_get env (id_params pid) = Some txt \<longrightarrow>
            fetch_paper env pid = Inl AttributeError)
       \<and> (entry \<in> set (et_findall root ''atom'' ''entry'') \<longrightarrow>
            api_get env (search_params q n) = Some txt \<longrightarrow>
            search_papers env q n = [])"
proof -
  have e: "entry_fields entry = Inl AttributeError"
    using assms(1) by (rule entry_fields_missing)
  have single: "parse_response (fromstring env) txt = Inl AttributeError"
    if "et_find root ''atom'' ''entry'' = Some entry"
    using that assms(2) e by (simp add: parse_response_def)
  have batch: "search_papers env q n = []"
    if mem: "entry \<in> set (et_findall root ''atom'' ''entry'')"
      and got: "api_get env (search_params q n) = Some txt"
  proof -
    obtain e' where "search_entries (et_findall root ''atom'' ''entry'') = Inl e'"
      using search_entries_raises[OF mem e] by blast
    then show ?thesis using got assms(2) by (simp add: search_papers_def)
  qed
  show ?thesis using single batch by (simp add: fetch_paper_def)
qed

theorem C2_missing_field_raises_or_empties_witness:
  "missing_required no_summary_entry
   \<and> parse_response (fromstring (feed_env [no_summary_entry, monadbft_entry])) ''<feed>...</feed>''
       = Inl AttributeError
   \<and> fetch_paper (feed_env [no_summary_entry, monadbft_entry]) ''arXiv:1804.01626'' = Inl AttributeError
   \<and> search_papers (feed_env [no_summary_entry, monadbft_entry]) ''SBFT'' 5 = []"
proof -
  let ?env = "feed_env [no_summary_entry, monadbft_entry]"
  let ?root = "atom ''feed'' None [atom ''title'' (Some ''ArXiv Query'') [], no_summary_entry, monadbft_entry]"
  have m: "missing_required no_summary_entry"
    by (simp add: missing_required_def no_summary_entry_def et_find_def atom_def qname_def ns_def)
  have f: "fromstring ?env ''<feed>...</feed>'' = Some ?root"
    by (simp add: feed_env_def)
  have first: "et_find ?root ''atom'' ''entry'' = Some no_summary_entry"
    by (simp add: et_find_def atom_def no_summary_entry_def qname_def ns_def)
  have mem: "no_summary_entry \<in> set (et_findall ?root ''atom'' ''entry'')"
    by (simp add: et_findall_def atom_def no_summary_entry_def qname_def ns_def)
  have g1: "api_get ?env (id_params ''arXiv:1804.01626'') = Some ''<feed>...</feed>''"
    by (simp add: feed_env_def)
  have g2: "api_get ?env (search_params ''SBFT'' 5) = Some ''<feed>...</feed>''"
    by (simp add: feed_env_def)
  show ?thesis
    using m first mem g1 g2
      C2_missing_field_raises_or_empties[OF m f, of "''arXiv:1804.01626''" "''SBFT''" 5]
    by simp
qed

text \<open>
  The claim as stated fails: of a response with a complete entry and an entry without
  a title, \<open>search_papers\<close> returns nothing, although the complete entry alone would
  be returned.
\<close>

theorem C2_batch_skips_only_bad_entry_counterexample:
  "missing_required untitled_entry
   \<and> search_papers (feed_env [monadbft_entry]) ''BFT'' 10 = [monadbft_paper]
   \<and> search_papers (feed_env [monadbft_entry, untitled_entry]) ''BFT'' 10 = []"
  by code_simp


section \<open>Properties of the keyword filter\<close>

subsection \<open>Small letters and capitals\<close>

lemma capital_codes:
  "map (of_char :: char \<Rightarrow> nat) capital_letters = [65..<91] @ [192..<215] @ [216..<223]"
  by code_simp

lemma small_codes:
  "map (of_char :: char \<Rightarrow> nat) small_letters = map (\<lambda>n. n + 32) ([65..<91] @ [192..<215] @ [216..<223])"
  by code_simp

lemma letters_length: "length capital_letters = length small_letters"
  by code_simp

lemma capital_range_distinct: "distinct ([65..<91] @ [192..<215] @ [216..<223] :: nat list)"
  by (auto simp del: upt_rec_numeral)

lemma capital_range_iff:
  "(n :: nat) \<in> set ([65..<91] @ [192..<215] @ [216..<223])
     \<longleftrightarrow> (65 \<le> n \<and> n \<le> 90) \<or> (192 \<le> n \<and> n \<le> 222 \<and> n \<noteq> 215)"
  by (auto simp del: upt_rec_numeral)

lemma capital_distinct: "distinct capital_letters"
proof -
  have "distinct (map (of_char :: char \<Rightarrow> nat) capital_letters)"
    unfolding capital_codes by (rule capital_range_distinct)
  then show ?thesis by (simp only: distinct_map)
qed

lemma is_capital_iff: "is_capital c \<longleftrightarrow> c \<in> set capital_letters"
proof -
  have "is_capital c \<longleftrightarrow> (of_char c :: nat) \<in> set ([65..<91] @ [192..<215] @ [216..<223])"
    unfolding capital_range_iff by (simp add: is_capital_def Let_def)
  also have "\<dots> \<longleftrightarrow> (of_char c :: nat) \<in> set (map of_char capital_letters)"
    unfolding capital_codes ..
  also have "\<dots> \<longleftrightarrow> c \<in> set capital_letters"
    by (auto simp only: set_map image_iff of_char_eq_iff)
  finally show ?thesis .
qed

lemma lower_char_other: "\<not> is_capital c \<Longrightarrow> lower_char c = c"
proof -
  assume "\<not> is_capital c"
  then have "c \<notin> set capital_letters"
    unfolding is_capital_iff .
  then have "map_of (zip capital_letters small_letters) c = None"
    using map_of_zip_is_None[OF letters_length] by blast
  then show ?thesis by (simp only: lower_char_def option.case)
qed

lemma lower_char_capital:
  assumes "is_capital c"
  shows "(of_char (lower_char c) :: nat) = of_char c + 32"
proof -
  let ?L = "[65..<91] @ [192..<215] @ [216..<223] :: nat list"
  have "c \<in> set capital_letters"
    using assms unfolding is_capital_iff .
  then obtain i where i: "i < length capital_letters" "capital_letters ! i = c"
    unfolding in_set_conv_nth by blast
  have i1: "i < length small_letters"
    using i(1) letters_length by simp
  have "length ?L = length (map (of_char :: char \<Rightarrow> nat) capital_letters)"
    unfolding capital_codes ..
  then have i2: "i < length ?L"
    using i(1) by (simp only: length_map)
  have "map_of (zip capital_letters small_letters) (capital_letters ! i) = Some (small_letters ! i)"
    using letters_length capital_distinct i1 by (rule map_of_zip_nth)
  then have "lower_char c = small_letters ! i"
    unfolding i(2) by (simp only: lower_char_def option.case)
  then have "(of_char (lower_char c) :: nat) = map of_char small_letters ! i"
    using i1 by (simp only: nth_map)
  also have "\<dots> = ?L ! i + 32"
    unfolding small_codes using i2 by (simp only: nth_map)
  also have "?L ! i = map (of_char :: char \<Rightarrow> nat) capital_letters ! i"
    unfolding capital_codes ..
  also have "\<dots> = of_char c"
    using i by (simp only: nth_map)
  finally show ?thesis .
qed

lemma filter_loop_acc:
  "filter_loop acc posts
     = acc @ filter (\<lambda>p. \<exists>k \<in> set monadbft_keywords. str_contains k (post_text p)) posts"
  by (induction posts arbitrary: acc) auto

lemma str_contains_sublist: "str_contains sub s = sublist sub s"
  by (induction s) (auto simp: sublist_Cons_right)


lemma lower_same_letter:
  assumes "\<not> is_capital y"
  shows "lower_char x = y \<longleftrightarrow> same_letter x y"
proof (cases "is_capital x")
  case True
  have code: "(of_char (lower_char x) :: nat) = of_char x + 32"
    using True by (rule lower_char_capital)
  show ?thesis
  proof
    assume "lower_char x = y"
    then show "same_letter x y"
      using code True by (auto simp: same_letter_def)
  next
    assume "same_letter x y"
    then have "(of_char y :: nat) = of_char x + 32"
      using assms True by (auto simp: same_letter_def)
    then have "(of_char (lower_char x) :: nat) = of_char y"
      using code by simp
    then show "lower_char x = y"
      by (simp only: of_char_eq_iff)
  qed
next
  case False
  then show ?thesis
    using assms lower_char_other[OF False] by (auto simp: same_letter_def)
qed

lemma map_lower_all2:
  "\<forall>y \<in> set k. \<not> is_capital y \<Longrightarrow> map lower_char w = k \<longleftrightarrow> list_all2 same_letter w k"
proof (induction w arbitrary: k)
  case Nil
  show ?case by auto
next
  case (Cons x w)
  show ?case
  proof (cases k)
    case Nil
    then show ?thesis by simp
  next
    case (Cons y k')
    then show ?thesis
      using Cons.IH[of k'] Cons.prems lower_same_letter[of y x] by auto
  qed
qed

lemma sublist_map_iff:
  "sublist k (map f t) \<longleftrightarrow> (\<exists>ps w ss. t = ps @ w @ ss \<and> map f w = k)"
proof
  assume "sublist k (map f t)"
  then obtain a b where ab: "map f t = a @ k @ b"
    unfolding sublist_def by blast
  have "map f (take (length k) (drop (length a) t)) = k"
    using ab by (metis append_eq_conv_conj drop_map take_map)
  moreover have "t = take (length a) t @ take (length k) (drop (length a) t) @ drop (length k) (drop (length a) t)"
    by (simp only: append_take_drop_id)
  ultimately show "\<exists>ps w ss. t = ps @ w @ ss \<and> map f w = k" by blast
next
  assume "\<exists>ps w ss. t = ps @ w @ ss \<and> map f w = k"
  then show "sublist k (map f t)"
    by auto
qed

lemma sublist_lower_occurs:
  assumes "\<forall>y \<in> set k. \<not> is_capital y"
  shows "sublist k (map lower_char t) \<longleftrightarrow> occurs_ci k t"
  unfolding sublist_map_iff occurs_ci_def using map_lower_all2[OF assms] by simp

lemma sublist_across:
  assumes "c \<notin> set k"
  shows "sublist k (a @ c # b) \<longleftrightarrow> sublist k a \<or> sublist k b"
proof
  assume "sublist k (a @ c # b)"
  then obtain ps ss where eq: "a @ c # b = ps @ k @ ss"
    unfolding sublist_def by blast
  then consider us where "a = ps @ us" "us @ c # b = k @ ss"
    | us where "a @ us = ps" "c # b = us @ k @ ss"
    by (auto simp: append_eq_append_conv2)
  then show "sublist k a \<or> sublist k b"
  proof cases
    case 1
    then consider vs where "us = k @ vs" | vs where "us @ vs = k" "c # b = vs @ ss"
      by (auto simp: append_eq_append_conv2)
    then show ?thesis
    proof cases
      case 1
      then show ?thesis using \<open>a = ps @ us\<close> by auto
    next
      case 2
      show ?thesis
      proof (cases vs)
        case Nil
        then show ?thesis using 2 \<open>a = ps @ us\<close> by auto
      next
        case (Cons v vs')
        then have "c \<in> set k" using 2 by auto
        then show ?thesis using assms by simp
      qed
    qed
  next
    case 2
    show ?thesis
    proof (cases us)
      case Nil
      then have "c # b = k @ ss" using 2 by simp
      then show ?thesis using assms by (cases k) auto
    next
      case (Cons u us')
      then have "b = us' @ k @ ss" using 2 by simp
      then show ?thesis by auto
    qed
  qed
next
  assume "sublist k a \<or> sublist k b"
  then show "sublist k (a @ c # b)"
    by (metis sublist_append sublist_Cons_right)
qed

lemma sublist_join:
  assumes "sp \<notin> set k" and "k \<noteq> []"
  shows "sublist k (str_join [sp] xs) \<longleftrightarrow> (\<exists>x \<in> set xs. sublist k x)"
proof (induction "[sp]" xs rule: str_join.induct)
  case 1
  show ?case using assms(2) by simp
next
  case (2 x)
  show ?case by simp
next
  case (3 x y ys)
  then show ?case using sublist_across[OF assms(1)] by simp
qed

lemma lower_join:
  "map lower_char (str_join sep xs) = str_join (map lower_char sep) (map (map lower_char) xs)"
  by (induction sep xs rule: str_join.induct) auto

lemma keywords_plain:
  "list_all (\<lambda>k. k \<noteq> [] \<and> CHR '' '' \<notin> set k \<and> list_all (\<lambda>c. \<not> is_capital c) k) monadbft_keywords"
  by code_simp

lemma lower_space: "lower_char CHR '' '' = CHR '' ''"
  by (rule lower_char_other) (simp add: is_capital_def)

lemma keyword_match:
  assumes "k \<in> set monadbft_keywords"
  shows "str_contains k (post_text p) \<longleftrightarrow> (\<exists>f \<in> set (post_fields p). occurs_ci k f)"
proof -
  have ne: "k \<noteq> []" and sp: "CHR '' '' \<notin> set k" and plain: "\<forall>y \<in> set k. \<not> is_capital y"
    using keywords_plain assms by (auto simp: list_all_iff)
  let ?t = "map lower_char (BlogPost.title p)"
  let ?c = "map lower_char (BlogPost.content p)"
  let ?ts = "map (map lower_char) (tags p)"
  have "post_text p = ?t @ CHR '' '' # ?c @ CHR '' '' # str_join '' '' ?ts"
    using lower_join[of "'' ''" "tags p"] by (simp add: post_text_def str_lower_def lower_space)
  then have "str_contains k (post_text p)
               \<longleftrightarrow> sublist k ?t \<or> sublist k ?c \<or> sublist k (str_join '' '' ?ts)"
    by (simp add: str_contains_sublist sublist_across[OF sp])
  also have "\<dots> \<longleftrightarrow> sublist k ?t \<or> sublist k ?c \<or> (\<exists>x \<in> set ?ts. sublist k x)"
    using sublist_join[OF sp ne] by simp
  also have "\<dots> \<longleftrightarrow> occurs_ci k (BlogPost.title p) \<or> occurs_ci k (BlogPost.content p)
                        \<or> (\<exists>x \<in> set (tags p). occurs_ci k x)"
    using sublist_lower_occurs[OF plain] by simp
  also have "\<dots> \<longleftrightarrow> (\<exists>f \<in> set (post_fields p). occurs_ci k f)"
    by (simp add: post_fields_def)
  finally show ?thesis .
qed

text \<open>
  Claim C7, as amended. \<open>filter_monadbft_posts\<close> is a pure selection: it returns the
  posts of its input, unchanged and in the input's order, for which some keyword of
  the fixed list occurs case-insensitively within the title, within the content or
  within one tag. The function joins these fields with single spaces before it
  searches, and no keyword contains a space, so a keyword that arises only across the
  boundary of two fields does not count.
\<close>

theorem C7_keyword_filter_selects:
  "filter_monadbft_posts posts
     = filter (\<lambda>p. \<exists>k \<in> set monadbft_keywords. \<exists>f \<in> set (post_fields p). occurs_ci k f) posts
   \<and> subseq (filter_monadbft_posts posts) posts"
proof -
  have "filter (\<lambda>p. \<exists>k \<in> set monadbft_keywords. str_contains k (post_text p)) posts
          = filter (\<lambda>p. \<exists>k \<in> set monadbft_keywords. \<exists>f \<in> set (post_fields p). occurs_ci k f) posts"
    by (rule filter_cong) (auto simp: keyword_match)
  then have "filter_monadbft_posts posts
               = filter (\<lambda>p. \<exists>k \<in> set monadbft_keywords. \<exists>f \<in> set (post_fields p). occurs_ci k f) posts"
    by (simp add: filter_monadbft_posts_def filter_loop_acc)
  then show ?thesis by simp
qed

theorem C7_keyword_filter_selects_witness:
  "''monadbft'' \<in> set monadbft_keywords
   \<and> filter_monadbft_posts filter_examples
       = [post_with ''MonadBFT update'' [] [],
          post_with ''Weekly notes'' ''On Byzantine generals.'' [],
          post_with ''Release'' ''Version 2.'' [''news'', ''Consensus'']]
   \<and> filter (\<lambda>p. \<exists>k \<in> set monadbft_keywords. \<exists>f \<in> set (post_fields p). occurs_ci k f)
        filter_examples
       = [post_with ''MonadBFT update'' [] [],
          post_with ''Weekly notes'' ''On Byzantine generals.'' [],
          post_with ''Release'' ''Version 2.'' [''news'', ''Consensus'']]
   \<and> filter_monadbft_posts
        [post_titled ''https://blog.categorylabs.xyz/monadbft-update'' ''MonadBFT update'',
         post_titled ''https://blog.categorylabs.xyz/cooking'' ''Cooking tips'']
       = [post_titled ''https://blog.categorylabs.xyz/monadbft-update'' ''MonadBFT update'']"
proof -
  let ?r = "[post_with ''MonadBFT update'' [] [],
             post_with ''Weekly notes'' ''On Byzantine generals.'' [],
             post_with ''Release'' ''Version 2.'' [''news'', ''Consensus'']]"
  have k: "''monadbft'' \<in> set monadbft_keywords"
    by (simp add: monadbft_keywords_def)
  have run: "filter_monadbft_posts filter_examples = ?r"
    by code_simp
  have eq: "filter_monadbft_posts filter_examples
              = filter (\<lambda>p. \<exists>k \<in> set monadbft_keywords. \<exists>f \<in> set (post_fields p). occurs_ci k f)
                  filter_examples"
    using C7_keyword_filter_selects[of filter_examples] by (rule conjunct1)
  have sel: "filter (\<lambda>p. \<exists>k \<in> set monadbft_keywords. \<exists>f \<in> set (post_fields p). occurs_ci k f)
               filter_examples = ?r"
    using eq[symmetric] run by (rule trans)
  have two: "filter_monadbft_posts
        [post_titled ''https://blog.categorylabs.xyz/monadbft-update'' ''MonadBFT update'',
         post_titled ''https://blog.categorylabs.xyz/cooking'' ''Cooking tips'']
       = [post_titled ''https://blog.categorylabs.xyz/monadbft-update'' ''MonadBFT update'']"
    by code_simp
  from k run sel two show ?thesis by (intro conjI)
qed

text \<open>
  The claim as stated fails: in the post below the keyword \<open>bft\<close> occurs, up to case,
  in the concatenation of the title, the content and the tags, across the boundary of
  the title and the content; the filter drops the post.
\<close>

theorem C7_keyword_across_fields_counterexample:
  "occurs_ci ''bft''
     (BlogPost.title (post_with ''Notes on B'' ''FT protocols'' [])
        @ BlogPost.content (post_with ''Notes on B'' ''FT protocols'' [])
        @ concat (tags (post_with ''Notes on B'' ''FT protocols'' [])))
   \<and> ''bft'' \<in> set monadbft_keywords
   \<and> filter_monadbft_posts [post_with ''Notes on B'' ''FT protocols'' []] = []"
proof -
  let ?q = "post_with ''Notes on B'' ''FT protocols'' []"
  have t: "BlogPost.title ?q @ BlogPost.content ?q @ concat (tags ?q)
             = ''Notes on '' @ ''BFT'' @ '' protocols''"
    by code_simp
  have l: "list_all2 same_letter ''BFT'' ''bft''"
    by code_simp
  have o: "occurs_ci ''bft'' (BlogPost.title ?q @ BlogPost.content ?q @ concat (tags ?q))"
    unfolding occurs_ci_def using t l by blast
  have k: "''bft'' \<in> set monadbft_keywords"
    by (simp add: monadbft_keywords_def)
  have f: "filter_monadbft_posts [?q] = []"
    by code_simp
  from o k f show ?thesis by (intro conjI)
qed
section \<open>Properties of link discovery\<close>

lemma collect_links_acc:
  "collect_links env visited u acc hs = acc @ collect_links env visited u [] hs"
proof (induction hs arbitrary: acc)
  case Nil
  show ?case by simp
next
  case (Cons h hs)
  show ?case
    using Cons[of "acc @ [x]" for x] Cons[of "[x]" for x] Cons[of acc] Cons[of "[]"]
    by (auto split: option.splits)
qed

lemma collect_links_Cons:
  "collect_links env visited u [] (h # hs) =
     (case urljoin env u h of
        None \<Rightarrow> []
      | Some v \<Rightarrow>
          (case urlparse env v of
             None \<Rightarrow> []
           | Some p \<Rightarrow>
               (case urlparse env BASE_URL of
                  None \<Rightarrow> []
                | Some b \<Rightarrow>
                    (if netloc p = netloc b \<and> CHR ''#'' \<notin> set v \<and> v \<notin> visited then [v] else [])
                    @ collect_links env visited u [] hs)))"
  using collect_links_acc[of env visited u "[x]" hs for x]
  by (auto split: option.splits)

lemma collect_links_visited:
  "collect_links env visited u [] hs
     = filter (\<lambda>v. v \<notin> visited) (collect_links env {} u [] hs)"
proof (induction hs)
  case Nil
  show ?case by simp
next
  case (Cons h hs)
  then show ?case
    unfolding collect_links_Cons by (auto split: option.splits)
qed

lemma find_doc_links_visited:
  "find_doc_links env visited u = filter (\<lambda>v. v \<notin> visited) (find_doc_links env {} u)"
  unfolding find_doc_links_def
  using collect_links_visited[of env visited u]
  by (auto split: option.splits)

lemma collect_links_filter:
  assumes "urlparse env BASE_URL \<noteq> None"
    and "list_all (\<lambda>href. case urljoin env u href of
                              None \<Rightarrow> False
                            | Some w \<Rightarrow> urlparse env w \<noteq> None) hs"
  shows "collect_links env visited u [] hs
           = filter (\<lambda>v. same_netloc env v BASE_URL \<and> CHR ''#'' \<notin> set v \<and> v \<notin> visited)
               (List.map_filter (urljoin env u) hs)"
  using assms(2)
proof (induction hs)
  case Nil
  show ?case by (simp add: List.map_filter_simps)
next
  case (Cons h hs)
  then show ?case
    unfolding collect_links_Cons using assms(1)
    by (auto split: option.splits simp: List.map_filter_simps same_netloc_def)
qed

lemma set_map_filter_iff:
  "v \<in> set (List.map_filter f xs) \<longleftrightarrow> (\<exists>x \<in> set xs. f x = Some v)"
  by (induction xs) (auto simp: List.map_filter_simps split: option.splits)

text \<open>
  Claim C4, as amended. For a page that loads and whose links raise no URL error,
  \<open>_find_doc_links\<close> returns, in the order of the page, the links (resolved against
  the URL of the page) whose domain is that of \<open>BASE_URL\<close>, that contain no \<open>#\<close>, and
  that are not in the visited set; so a resolved link is appended to the frontier if
  and only if it meets these three conditions.
\<close>

theorem C4_links_kept_iff:
  assumes "http_get env u = Some soup"
    and "no_url_error env u soup"
  shows "find_doc_links env visited u
           = filter (\<lambda>v. same_netloc env v BASE_URL \<and> CHR ''#'' \<notin> set v \<and> v \<notin> visited)
               (List.map_filter (urljoin env u) (hrefs soup))
       \<and> (v \<in> set (find_doc_links env visited u) \<longleftrightarrow>
            (\<exists>href \<in> set (hrefs soup). urljoin env u href = Some v)
            \<and> same_netloc env v BASE_URL \<and> CHR ''#'' \<notin> set v \<and> v \<notin> visited)"
proof -
  have eq: "find_doc_links env visited u
              = filter (\<lambda>v. same_netloc env v BASE_URL \<and> CHR ''#'' \<notin> set v \<and> v \<notin> visited)
                  (List.map_filter (urljoin env u) (hrefs soup))"
    using assms collect_links_filter[of env u "hrefs soup" visited]
    by (simp add: find_doc_links_def no_url_error_def)
  show ?thesis
    unfolding eq by (auto simp: set_map_filter_iff)
qed


theorem C4_links_kept_iff_witness:
  "http_get (site_env docs_site) intro_url = Some intro_page
   \<and> no_url_error (site_env docs_site) intro_url intro_page
   \<and> find_doc_links (site_env docs_site) {BASE_URL, intro_url} intro_url = [monadbft_url]
   \<and> (monadbft_url \<in> set (find_doc_links (site_env docs_site) {BASE_URL, intro_url} intro_url) \<longleftrightarrow>
        (\<exists>href \<in> set (hrefs intro_page). urljoin (site_env docs_site) intro_url href = Some monadbft_url)
        \<and> same_netloc (site_env docs_site) monadbft_url BASE_URL
        \<and> CHR ''#'' \<notin> set monadbft_url \<and> monadbft_url \<notin> {BASE_URL, intro_url})"
proof -
  have a: "http_get (site_env docs_site) intro_url = Some intro_page"
    by code_simp
  have b: "no_url_error (site_env docs_site) intro_url intro_page"
    by code_simp
  have c: "find_doc_links (site_env docs_site) {BASE_URL, intro_url} intro_url = [monadbft_url]"
    by code_simp
  have d: "monadbft_url \<in> set (find_doc_links (site_env docs_site) {BASE_URL, intro_url} intro_url) \<longleftrightarrow>
        (\<exists>href \<in> set (hrefs intro_page). urljoin (site_env docs_site) intro_url href = Some monadbft_url)
        \<and> same_netloc (site_env docs_site) monadbft_url BASE_URL
        \<and> CHR ''#'' \<notin> set monadbft_url \<and> monadbft_url \<notin> {BASE_URL, intro_url}"
    using C4_links_kept_iff[OF a b, of "{BASE_URL, intro_url}" monadbft_url] by (rule conjunct2)
  from a b c d show ?thesis by (intro conjI)
qed

text \<open>
  The claim as stated fails: the link \<open>/consensus/monadbft#pipelining\<close> on the
  introduction page resolves to a URL of the seed's domain, with a path other than
  that of the page (it is not an anchor within the page), and not yet visited; it is
  not appended.
\<close>

theorem C4_fragment_link_counterexample:
  "urljoin (site_env docs_site) intro_url ''/consensus/monadbft#pipelining''
     = Some ''https://docs.monad.xyz/consensus/monadbft#pipelining''
   \<and> ''/consensus/monadbft#pipelining'' \<in> set (hrefs intro_page)
   \<and> same_netloc (site_env docs_site) ''https://docs.monad.xyz/consensus/monadbft#pipelining'' BASE_URL
   \<and> path (py_urlparse ''https://docs.monad.xyz/consensus/monadbft#pipelining'') = ''/consensus/monadbft''
   \<and> path (py_urlparse intro_url) = ''/intro''
   \<and> ''https://docs.monad.xyz/consensus/monadbft#pipelining'' \<notin> {BASE_URL, intro_url}
   \<and> ''https://docs.monad.xyz/consensus/monadbft#pipelining''
        \<notin> set (find_doc_links (site_env docs_site) {BASE_URL, intro_url} intro_url)"
  by code_simp

section \<open>Properties of the crawl\<close>

lemma scrape_page_url: "scrape_page env u = Some p \<Longrightarrow> DocPage.url p = u"
  by (auto simp: scrape_page_def page_of_soup_def Let_def)

lemma scrape_page_loads: "http_get env u \<noteq> None \<Longrightarrow> \<exists>p. scrape_page env u = Some p"
  by (auto simp: scrape_page_def)

subsection \<open>The pages and the visited set\<close>

lemma step_pages_match:
  assumes "pages_match_visited v0 s"
  shows "pages_match_visited v0 (scrape_docs_step env s)"
proof (cases "urls_to_visit s")
  case Nil
  then show ?thesis using assms by (simp add: scrape_docs_step_def)
next
  case (Cons u rest)
  show ?thesis
  proof (cases "u \<in> visited_urls s")
    case True
    then show ?thesis
      using assms Cons by (simp add: scrape_docs_step_def pages_match_visited_def)
  next
    case False
    show ?thesis
    proof (cases "scrape_page env u")
      case None
      then show ?thesis
        using assms Cons False by (simp add: scrape_docs_step_def pages_match_visited_def)
    next
      case (Some page)
      have u: "DocPage.url page = u"
        using Some by (rule scrape_page_url)
      have new: "u \<notin> v0" "u \<notin> set (map DocPage.url (pages s))"
        using assms False by (auto simp: pages_match_visited_def)
      show ?thesis
        using assms Cons False Some u new
        by (auto simp: scrape_docs_step_def pages_match_visited_def Let_def)
    qed
  qed
qed

lemma loop_pages_match:
  assumes "scrape_docs_loop env s = Some s'"
  shows "pages_match_visited v0 s \<longrightarrow> pages_match_visited v0 s'"
proof (rule scrape_docs_loop.raw_induct
    [where P = "\<lambda>e a b. pages_match_visited v0 a \<longrightarrow> pages_match_visited v0 b", OF _ assms])
  fix loop e a b
  assume ih: "\<And>x y z. loop x y = Some z \<Longrightarrow> pages_match_visited v0 y \<longrightarrow> pages_match_visited v0 z"
    and eq: "(if urls_to_visit a = [] then Some a else loop e (scrape_docs_step e a)) = Some b"
  show "pages_match_visited v0 a \<longrightarrow> pages_match_visited v0 b"
  proof (cases "urls_to_visit a = []")
    case True
    then show ?thesis using eq by simp
  next
    case False
    then have "loop e (scrape_docs_step e a) = Some b"
      using eq by simp
    then have "pages_match_visited v0 (scrape_docs_step e a) \<longrightarrow> pages_match_visited v0 b"
      by (rule ih)
    then show ?thesis using step_pages_match by blast
  qed
qed

lemma init_pages_match: "pages_match_visited v0 (scrape_docs_init v0 start_url)"
  by (simp add: pages_match_visited_def scrape_docs_init_def)

text \<open>
  Claim C9. The URLs of the pages returned so far are pairwise distinct and are
  exactly the URLs added to \<open>visited_urls\<close> since the crawl began: this holds when
  the crawl begins, every iteration of the loop preserves it, and so it holds of the
  result of every crawl that completes.
\<close>

theorem C9_pages_are_the_visited_urls:
  "pages_match_visited v0 (scrape_docs_init v0 start_url)
   \<and> (pages_match_visited v0 s \<longrightarrow> pages_match_visited v0 (scrape_docs_step env s))
   \<and> (scrape_docs env v0 start_url = Some s' \<longrightarrow> pages_match_visited v0 s')"
  using init_pages_match[of v0 start_url] step_pages_match[of v0 s env]
    loop_pages_match[of env "scrape_docs_init v0 start_url" s' v0]
  by (auto simp: scrape_docs_def)

theorem C9_pages_are_the_visited_urls_witness:
  "pages_match_visited {monadbft_url} (scrape_docs_init {monadbft_url} None)
   \<and> pages_match_visited {monadbft_url}
        (scrape_docs_step (site_env docs_site) (scrape_docs_init {monadbft_url} None))
   \<and> (case scrape_docs (site_env docs_site) {monadbft_url} None of
         None \<Rightarrow> False
       | Some s' \<Rightarrow> pages_match_visited {monadbft_url} s'
                    \<and> map DocPage.url (pages s') = [BASE_URL, intro_url]
                    \<and> visited_urls s' = {monadbft_url, BASE_URL, intro_url})"
proof -
  let ?env = "site_env docs_site"
  let ?v0 = "{monadbft_url}"
  let ?s0 = "scrape_docs_init ?v0 None"
  have run: "map_option (\<lambda>s. (map DocPage.url (pages s), visited_urls s)) (scrape_docs ?env ?v0 None)
               = Some ([BASE_URL, intro_url], {monadbft_url, BASE_URL, intro_url})"
    by code_simp
  then obtain s' where s': "scrape_docs ?env ?v0 None = Some s'"
    by auto
  have a: "pages_match_visited ?v0 ?s0"
    and b: "pages_match_visited ?v0 ?s0 \<longrightarrow> pages_match_visited ?v0 (scrape_docs_step ?env ?s0)"
    and c: "scrape_docs ?env ?v0 None = Some s' \<longrightarrow> pages_match_visited ?v0 s'"
    using C9_pages_are_the_visited_urls[of ?v0 None ?s0 ?env s'] by blast+
  show ?thesis
    using a b c run s' by auto
qed

subsection \<open>Termination and completeness of the crawl\<close>

lemma reachable_seed: "seed \<in> reachable env seed"
  by (simp add: reachable_def)

lemma reachable_step:
  "u \<in> reachable env seed \<Longrightarrow> v \<in> set (find_doc_links env {} u) \<Longrightarrow> v \<in> reachable env seed"
  unfolding reachable_def doc_edges_def
  by (auto intro: rtrancl_into_rtrancl)

lemma reachable_closed:
  assumes "seed \<in> S" and "\<forall>u \<in> S. set (find_doc_links env {} u) \<subseteq> S"
  shows "reachable env seed \<subseteq> S"
proof
  fix v
  assume "v \<in> reachable env seed"
  then have "(seed, v) \<in> (doc_edges env)\<^sup>*"
    by (simp add: reachable_def)
  then show "v \<in> S"
  proof (induction rule: rtrancl_induct)
    case base
    show ?case by (rule assms(1))
  next
    case (step y z)
    then show ?case using assms(2) by (auto simp: doc_edges_def)
  qed
qed

lemma init_inv: "crawl_inv env seed (scrape_docs_init {} (Some seed))"
  by (simp add: crawl_inv_def scrape_docs_init_def reachable_seed)

lemma crawl_invD:
  assumes "crawl_inv env seed s"
  shows "set (urls_to_visit s) \<subseteq> reachable env seed"
    and "visited_urls s \<subseteq> reachable env seed"
    and "visited_urls s = set (map DocPage.url (pages s))"
    and "distinct (map DocPage.url (pages s))"
    and "list_all (\<lambda>p. scrape_page env (DocPage.url p) = Some p) (pages s)"
    and "requests s = concat (map (\<lambda>p. [DocPage.url p, DocPage.url p]) (pages s))"
    and "\<forall>u \<in> visited_urls s.
           set (find_doc_links env {} u) \<subseteq> visited_urls s \<union> set (urls_to_visit s)"
    and "seed \<in> visited_urls s \<union> set (urls_to_visit s)"
  using assms unfolding crawl_inv_def by blast+

lemma crawl_invI:
  assumes "set (urls_to_visit s) \<subseteq> reachable env seed"
    and "visited_urls s \<subseteq> reachable env seed"
    and "visited_urls s = set (map DocPage.url (pages s))"
    and "distinct (map DocPage.url (pages s))"
    and "list_all (\<lambda>p. scrape_page env (DocPage.url p) = Some p) (pages s)"
    and "requests s = concat (map (\<lambda>p. [DocPage.url p, DocPage.url p]) (pages s))"
    and "\<forall>u \<in> visited_urls s.
           set (find_doc_links env {} u) \<subseteq> visited_urls s \<union> set (urls_to_visit s)"
    and "seed \<in> visited_urls s \<union> set (urls_to_visit s)"
  shows "crawl_inv env seed s"
  using assms unfolding crawl_inv_def by blast

lemma step_inv:
  assumes ok: "\<forall>u \<in> reachable env seed. http_get env u \<noteq> None"
    and inv: "crawl_inv env seed s"
  shows "crawl_inv env seed (scrape_docs_step env s)"
proof (cases "urls_to_visit s")
  case Nil
  then show ?thesis using inv by (simp add: scrape_docs_step_def)
next
  case (Cons u rest)
  note c = crawl_invD[OF inv]
  have uR: "u \<in> reachable env seed"
    using c(1) Cons by simp
  have restR: "set rest \<subseteq> reachable env seed"
    using c(1) Cons by simp
  show ?thesis
  proof (cases "u \<in> visited_urls s")
    case True
    have step: "scrape_docs_step env s = s\<lparr> urls_to_visit := rest \<rparr>"
      using Cons True by (simp add: scrape_docs_step_def)
    let ?t = "s\<lparr> urls_to_visit := rest \<rparr>"
    have f1: "set (urls_to_visit ?t) \<subseteq> reachable env seed"
      using restR by simp
    have f2: "visited_urls ?t \<subseteq> reachable env seed"
      using c(2) by simp
    have f3: "visited_urls ?t = set (map DocPage.url (pages ?t))"
      using c(3) by simp
    have f4: "distinct (map DocPage.url (pages ?t))"
      using c(4) by simp
    have f5: "list_all (\<lambda>p. scrape_page env (DocPage.url p) = Some p) (pages ?t)"
      using c(5) by simp
    have f6: "requests ?t = concat (map (\<lambda>p. [DocPage.url p, DocPage.url p]) (pages ?t))"
      using c(6) by simp
    have f7: "\<forall>w \<in> visited_urls ?t.
                set (find_doc_links env {} w) \<subseteq> visited_urls ?t \<union> set (urls_to_visit ?t)"
      using c(7) Cons True by auto
    have f8: "seed \<in> visited_urls ?t \<union> set (urls_to_visit ?t)"
      using c(8) Cons True by auto
    show ?thesis
      unfolding step by (rule crawl_invI[OF f1 f2 f3 f4 f5 f6 f7 f8])
  next
    case False
    obtain page where page: "scrape_page env u = Some page"
      using ok uR scrape_page_loads by blast
    have pu: "DocPage.url page = u"
      using page by (rule scrape_page_url)
    let ?v = "insert u (visited_urls s)"
    let ?new = "find_doc_links env ?v u"
    have new: "?new = filter (\<lambda>x. x \<notin> ?v) (find_doc_links env {} u)"
      by (rule find_doc_links_visited)
    have step: "scrape_docs_step env s =
                  s\<lparr> urls_to_visit := rest @ ?new, visited_urls := ?v,
                     pages := pages s @ [page], requests := requests s @ [u, u] \<rparr>"
      using Cons False page by (simp add: scrape_docs_step_def Let_def)
    have linksR: "set (find_doc_links env {} u) \<subseteq> reachable env seed"
      using reachable_step[OF uR] by blast
    have i1: "set (rest @ ?new) \<subseteq> reachable env seed"
      using restR linksR unfolding new by auto
    have i2: "?v \<subseteq> reachable env seed"
      using c(2) uR by simp
    have i3: "?v = set (map DocPage.url (pages s @ [page]))"
      using c(3) pu by simp
    have unew: "u \<notin> set (map DocPage.url (pages s))"
      using False c(3) by simp
    have i4: "distinct (map DocPage.url (pages s @ [page]))"
      using c(4) pu unew by simp
    have i5: "list_all (\<lambda>p. scrape_page env (DocPage.url p) = Some p) (pages s @ [page])"
      using c(5) pu page by simp
    have i6: "requests s @ [u, u]
                = concat (map (\<lambda>p. [DocPage.url p, DocPage.url p]) (pages s @ [page]))"
      using c(6) pu by simp
    have i7: "\<forall>w \<in> ?v. set (find_doc_links env {} w) \<subseteq> ?v \<union> set (rest @ ?new)"
    proof
      fix w
      assume w: "w \<in> ?v"
      show "set (find_doc_links env {} w) \<subseteq> ?v \<union> set (rest @ ?new)"
      proof (cases "w = u")
        case True
        then show ?thesis unfolding new by auto
      next
        case False
        then have "w \<in> visited_urls s" using w by simp
        then have "set (find_doc_links env {} w) \<subseteq> visited_urls s \<union> set (u # rest)"
          using c(7) Cons by auto
        then show ?thesis by auto
      qed
    qed
    have i8: "seed \<in> ?v \<union> set (rest @ ?new)"
      using c(8) Cons by auto
    let ?t = "s\<lparr> urls_to_visit := rest @ ?new, visited_urls := ?v,
                 pages := pages s @ [page], requests := requests s @ [u, u] \<rparr>"
    have f1: "set (urls_to_visit ?t) \<subseteq> reachable env seed"
      using i1 by simp
    have f2: "visited_urls ?t \<subseteq> reachable env seed"
      using i2 by simp
    have f3: "visited_urls ?t = set (map DocPage.url (pages ?t))"
      using i3 by simp
    have f4: "distinct (map DocPage.url (pages ?t))"
      using i4 by simp
    have f5: "list_all (\<lambda>p. scrape_page env (DocPage.url p) = Some p) (pages ?t)"
      using i5 by simp
    have f6: "requests ?t = concat (map (\<lambda>p. [DocPage.url p, DocPage.url p]) (pages ?t))"
      using i6 by simp
    have f7: "\<forall>w \<in> visited_urls ?t.
                set (find_doc_links env {} w) \<subseteq> visited_urls ?t \<union> set (urls_to_visit ?t)"
      using i7 by simp
    have f8: "seed \<in> visited_urls ?t \<union> set (urls_to_visit ?t)"
      using i8 by simp
    show ?thesis
      unfolding step by (rule crawl_invI[OF f1 f2 f3 f4 f5 f6 f7 f8])
  qed
qed

lemma step_decreases:
  assumes fin: "finite (reachable env seed)"
    and ok: "\<forall>u \<in> reachable env seed. http_get env u \<noteq> None"
    and inv: "crawl_inv env seed s"
    and ne: "urls_to_visit s \<noteq> []"
  shows "(scrape_docs_step env s, s)
           \<in> measures [\<lambda>s. card (reachable env seed - visited_urls s),
                        \<lambda>s. length (urls_to_visit s)]"
proof -
  obtain u rest where Cons: "urls_to_visit s = u # rest"
    using ne by (cases "urls_to_visit s") auto
  have uR: "u \<in> reachable env seed"
    using crawl_invD(1)[OF inv] Cons by simp
  show ?thesis
  proof (cases "u \<in> visited_urls s")
    case True
    then show ?thesis using Cons by (simp add: scrape_docs_step_def)
  next
    case False
    obtain page where page: "scrape_page env u = Some page"
      using ok uR scrape_page_loads by blast
    have "reachable env seed - insert u (visited_urls s) \<subset> reachable env seed - visited_urls s"
      using uR False by auto
    then have "card (reachable env seed - insert u (visited_urls s))
                 < card (reachable env seed - visited_urls s)"
      using fin by (intro psubset_card_mono) auto
    then show ?thesis
      using Cons False page by (simp add: scrape_docs_step_def Let_def)
  qed
qed

lemma loop_terminates:
  assumes fin: "finite (reachable env seed)"
    and ok: "\<forall>u \<in> reachable env seed. http_get env u \<noteq> None"
  shows "crawl_inv env seed s \<Longrightarrow>
         \<exists>s'. scrape_docs_loop env s = Some s' \<and> crawl_inv env seed s' \<and> urls_to_visit s' = []"
proof (induction s rule: wf_induct_rule
    [OF wf_measures[of "[\<lambda>s. card (reachable env seed - visited_urls s),
                         \<lambda>s. length (urls_to_visit s)]"]])
  case (1 s)
  show ?case
  proof (cases "urls_to_visit s = []")
    case True
    then show ?thesis
      using "1.prems" by (subst scrape_docs_loop.simps) simp
  next
    case False
    have "crawl_inv env seed (scrape_docs_step env s)"
      using ok "1.prems" by (rule step_inv)
    moreover have "(scrape_docs_step env s, s)
                     \<in> measures [\<lambda>s. card (reachable env seed - visited_urls s),
                                  \<lambda>s. length (urls_to_visit s)]"
      using fin ok "1.prems" False by (rule step_decreases)
    ultimately obtain s' where
      "scrape_docs_loop env (scrape_docs_step env s) = Some s'"
      "crawl_inv env seed s'" "urls_to_visit s' = []"
      using "1.IH" by blast
    then show ?thesis
      using False by (subst scrape_docs_loop.simps) simp
  qed
qed

lemma final_visited:
  assumes inv: "crawl_inv env seed s" and empty: "urls_to_visit s = []"
  shows "visited_urls s = reachable env seed"
proof
  show "visited_urls s \<subseteq> reachable env seed"
    by (rule crawl_invD(2)[OF inv])
  have "seed \<in> visited_urls s"
    using crawl_invD(8)[OF inv] empty by simp
  moreover have "\<forall>u \<in> visited_urls s. set (find_doc_links env {} u) \<subseteq> visited_urls s"
    using crawl_invD(7)[OF inv] empty by simp
  ultimately show "reachable env seed \<subseteq> visited_urls s"
    by (rule reachable_closed)
qed

lemma length_requests:
  "length (concat (map (\<lambda>p. [DocPage.url p, DocPage.url p]) ps)) = 2 * length ps"
  by (induction ps) auto

text \<open>
  Claim C1, as amended. Take the link graph that the crawl follows: an edge from a
  page to every link that \<open>_find_doc_links\<close> accepts on it (a link on the domain of
  \<open>BASE_URL\<close> and without \<open>#\<close>). If the set of pages reachable from the seed is
  finite, with \<open>N\<close> pages, and each of them loads, then \<open>scrape_docs\<close> on a new
  scraper terminates; it visits exactly the reachable pages; it returns one
  \<open>DocPage\<close> per reachable page, each once and each the extraction of its URL; and it
  makes exactly \<open>2 * N\<close> requests, two for every page (one by \<open>_scrape_page\<close>, one by
  \<open>_find_doc_links\<close>).
\<close>

theorem C1_crawl_terminates_and_covers:
  assumes "finite (reachable env seed)"
    and "\<forall>u \<in> reachable env seed. http_get env u \<noteq> None"
  shows "\<exists>s'. scrape_docs env {} (Some seed) = Some s'
           \<and> urls_to_visit s' = []
           \<and> visited_urls s' = reachable env seed
           \<and> set (map DocPage.url (pages s')) = reachable env seed
           \<and> distinct (map DocPage.url (pages s'))
           \<and> length (pages s') = card (reachable env seed)
           \<and> list_all (\<lambda>p. scrape_page env (DocPage.url p) = Some p) (pages s')
           \<and> requests s' = concat (map (\<lambda>p. [DocPage.url p, DocPage.url p]) (pages s'))
           \<and> length (requests s') = 2 * card (reachable env seed)"
proof -
  obtain s' where run: "scrape_docs_loop env (scrape_docs_init {} (Some seed)) = Some s'"
    and inv: "crawl_inv env seed s'" and empty: "urls_to_visit s' = []"
    using loop_terminates[OF assms init_inv] by blast
  note c = crawl_invD[OF inv]
  have v: "visited_urls s' = reachable env seed"
    using inv empty by (rule final_visited)
  have p: "set (map DocPage.url (pages s')) = reachable env seed"
    using c(3) v by simp
  have n: "length (pages s') = card (reachable env seed)"
    using distinct_card[OF c(4)] p by simp
  have r: "length (requests s') = 2 * card (reachable env seed)"
    using c(6) n by (simp add: length_requests)
  show ?thesis
    using run empty v p c(4) n c(5) c(6) r unfolding scrape_docs_def by blast
qed

theorem C1_crawl_terminates_and_covers_witness:
  "reachable (site_env docs_site) BASE_URL = {BASE_URL, intro_url, monadbft_url}
   \<and> list_all (\<lambda>u. http_get (site_env docs_site) u \<noteq> None) [BASE_URL, intro_url, monadbft_url]
   \<and> card (reachable (site_env docs_site) BASE_URL) = 3
   \<and> (case scrape_docs (site_env docs_site) {} (Some BASE_URL) of
         None \<Rightarrow> False
       | Some s' \<Rightarrow>
           map DocPage.url (pages s') = [BASE_URL, intro_url, monadbft_url]
           \<and> requests s' = [BASE_URL, BASE_URL, intro_url, intro_url, monadbft_url, monadbft_url]
           \<and> set (map DocPage.url (pages s')) = reachable (site_env docs_site) BASE_URL
           \<and> length (pages s') = card (reachable (site_env docs_site) BASE_URL)
           \<and> length (requests s') = 2 * card (reachable (site_env docs_site) BASE_URL))"
proof -
  let ?env = "site_env docs_site"
  let ?S = "{BASE_URL, intro_url, monadbft_url}"
  have links: "find_doc_links ?env {} BASE_URL = [intro_url, monadbft_url]"
    "find_doc_links ?env {} intro_url = [BASE_URL, intro_url, monadbft_url]"
    "find_doc_links ?env {} monadbft_url = [BASE_URL, intro_url, monadbft_url]"
    by code_simp+
  have closed: "\<forall>u \<in> ?S. set (find_doc_links ?env {} u) \<subseteq> ?S"
    using links by simp
  have sub: "reachable ?env BASE_URL \<subseteq> ?S"
    by (rule reachable_closed[OF _ closed]) simp
  have "intro_url \<in> reachable ?env BASE_URL" "monadbft_url \<in> reachable ?env BASE_URL"
    using reachable_step[OF reachable_seed[of BASE_URL ?env]] links(1) by simp_all
  then have R: "reachable ?env BASE_URL = ?S"
    using sub reachable_seed[of BASE_URL ?env] by blast
  have loads: "list_all (\<lambda>u. http_get ?env u \<noteq> None) [BASE_URL, intro_url, monadbft_url]"
    by code_simp
  have fin: "finite (reachable ?env BASE_URL)"
    unfolding R by simp
  have ok: "\<forall>u \<in> reachable ?env BASE_URL. http_get ?env u \<noteq> None"
    unfolding R using loads by simp
  have three: "card (reachable ?env BASE_URL) = 3"
    unfolding R by code_simp
  have run: "map_option (\<lambda>s. (map DocPage.url (pages s), requests s)) (scrape_docs ?env {} (Some BASE_URL))
               = Some ([BASE_URL, intro_url, monadbft_url],
                       [BASE_URL, BASE_URL, intro_url, intro_url, monadbft_url, monadbft_url])"
    by code_simp
  obtain s' where s': "scrape_docs ?env {} (Some BASE_URL) = Some s'"
    and p: "set (map DocPage.url (pages s')) = reachable ?env BASE_URL"
    and n: "length (pages s') = card (reachable ?env BASE_URL)"
    and r: "length (requests s') = 2 * card (reachable ?env BASE_URL)"
    using C1_crawl_terminates_and_covers[OF fin ok] by blast
  have q: "map DocPage.url (pages s') = [BASE_URL, intro_url, monadbft_url]"
    "requests s' = [BASE_URL, BASE_URL, intro_url, intro_url, monadbft_url, monadbft_url]"
    using run s' by simp_all
  show ?thesis
    using R loads three s' q p n r by simp
qed

text \<open>
  The claim as stated fails on the number of fetches: on a site of one page, which
  has one reachable page, the crawl makes two requests.
\<close>

theorem C1_fetch_count_counterexample:
  "reachable (site_env single_page_site) BASE_URL = {BASE_URL}
   \<and> map_option (\<lambda>s. (map DocPage.url (pages s), requests s))
        (scrape_docs (site_env single_page_site) {} (Some BASE_URL))
       = Some ([BASE_URL], [BASE_URL, BASE_URL])"
proof -
  have links: "find_doc_links (site_env single_page_site) {} BASE_URL = []"
    by code_simp
  have "reachable (site_env single_page_site) BASE_URL \<subseteq> {BASE_URL}"
    by (rule reachable_closed) (simp_all add: links)
  then have R: "reachable (site_env single_page_site) BASE_URL = {BASE_URL}"
    using reachable_seed[of BASE_URL "site_env single_page_site"] by blast
  have run: "map_option (\<lambda>s. (map DocPage.url (pages s), requests s))
               (scrape_docs (site_env single_page_site) {} (Some BASE_URL))
             = Some ([BASE_URL], [BASE_URL, BASE_URL])"
    by code_simp
  show ?thesis using R run by simp
qed

section \<open>Sections and breadcrumbs\<close>

text \<open>
  What \<open>_scrape_page\<close> derives from the list of breadcrumbs it has read: the section
  is the first label, or \<open>General\<close> for an empty list; the subsection is the second
  label, or \<open>None\<close> for a list of fewer than two.
\<close>

lemma section_from_breadcrumbs:
  assumes "scrape_page env u = Some p"
  shows "page_section p = (case breadcrumbs p of [] \<Rightarrow> ''General'' | b # _ \<Rightarrow> b)"
    and "page_subsection p = (if length (breadcrumbs p) > 1 then Some (breadcrumbs p ! 1) else None)"
  using assms by (auto simp: scrape_page_def page_of_soup_def Let_def)

text \<open>
  A page of the example site with its breadcrumbs outside the content element, and one
  without breadcrumbs.
\<close>

lemma section_example:
  "map_option (\<lambda>p. (page_section p, page_subsection p, breadcrumbs p))
     (scrape_page (site_env docs_site) intro_url)
   = Some (''Docs'', Some ''Introduction'', [''Docs'', ''Introduction''])"
  by code_simp

lemma no_breadcrumbs_example:
  "map_option (\<lambda>p. (page_section p, page_subsection p, breadcrumbs p))
     (scrape_page (site_env docs_site) BASE_URL)
   = Some (''General'', None, [])"
  by code_simp

text \<open>
  Claim C6. The claim says that the section of a scraped page is the first label of
  its breadcrumb trail and the subsection the second. \<open>_scrape_page\<close> removes the
  \<open>nav\<close> elements of the content element from the soup before it reads the
  breadcrumbs from the same soup. The page below has the breadcrumb container
  \<open>nav.breadcrumbs\<close> with the labels \<open>Docs\<close> and \<open>Getting Started\<close> inside \<open>main\<close>:
  read from the page as fetched the trail is \<open>[Docs, Getting Started]\<close>, but the
  record has no breadcrumbs, the section \<open>General\<close> and no subsection.
\<close>

theorem C6_breadcrumbs_inside_content_are_lost:
  "extract_breadcrumbs getting_started_page = [''Docs'', ''Getting Started'']
   \<and> scrape_page (site_env [(getting_started_url, getting_started_page)]) getting_started_url
       = Some \<lparr> DocPage.url = getting_started_url,
                DocPage.title = ''Getting Started'',
                DocPage.content = ''Getting Started'' @ [CHR 0x0A] @ ''Install the client.'',
                page_section = ''General'',
                page_subsection = None,
                breadcrumbs = [] \<rparr>"
  by code_simp


section \<open>Properties of persistence\<close>











text \<open>
  Names that \<open>open\<close> refuses: an old-style arXiv id and a title with a \<open>/\<close>. The save
  raises and writes nothing.
\<close>

lemma save_with_slash_example:
  "map_sum id snd (save_metadata (feed_env []) Map.empty (paper_with_id ''cs/0701001v2'' ''An old paper''))
     = Inl FileNotFoundError"
  "map_sum id snd (save_post (site_env []) Map.empty (post_titled category_labs_url ''TCP/IP consensus''))
     = Inl FileNotFoundError"
  by code_simp+




subsection \<open>Posts without a link\<close>





end
